theory Spec2Isabelle
  imports Main "HOL-Library.Sublist" "HOL-Library.Char_ord" "HOL-Library.List_Lexorder"
    "HOL-Library.AList" "HOL-Library.Multiset"
begin

section \<open>Python strings\<close>

text \<open>
  A Python \<^verbatim>\<open>str\<close> is modelled as a \<^typ>\<open>string\<close>; a character stands for the code
  point of the same number, so the model covers the texts whose code points are below 256.
  The character classes below are the ones Python 3 uses on that range: \<^verbatim>\<open>str.strip\<close>,
  \<^verbatim>\<open>str.split()\<close> and the pattern \<^verbatim>\<open>\s\<close> share one set of blanks, \<^verbatim>\<open>\w\<close> is a
  letter, a digit or the underscore, \<^verbatim>\<open>.\<close> is everything but the line feed.
\<close>

definition code :: "char \<Rightarrow> nat" where
  "code c = of_char c"

definition newline :: char where
  "newline = CHR 0x0A"

definition is_space :: "char \<Rightarrow> bool" where
  "is_space c = (let n = code c in
     (9 \<le> n \<and> n \<le> 13) \<or> (28 \<le> n \<and> n \<le> 32) \<or> n = 133 \<or> n = 160)"

definition is_AZ :: "char \<Rightarrow> bool" where
  "is_AZ c = (65 \<le> code c \<and> code c \<le> 90)"

definition is_az_us :: "char \<Rightarrow> bool" where
  "is_az_us c = ((97 \<le> code c \<and> code c \<le> 122) \<or> code c = 95)"

definition is_AZ_us :: "char \<Rightarrow> bool" where
  "is_AZ_us c = (is_AZ c \<or> code c = 95)"

definition is_word :: "char \<Rightarrow> bool" where
  "is_word c = (let n = code c in
     (48 \<le> n \<and> n \<le> 57) \<or> (65 \<le> n \<and> n \<le> 90) \<or> n = 95 \<or> (97 \<le> n \<and> n \<le> 122) \<or>
     n = 170 \<or> n = 178 \<or> n = 179 \<or> n = 181 \<or> n = 185 \<or> n = 186 \<or>
     (188 \<le> n \<and> n \<le> 190) \<or> (192 \<le> n \<and> n \<le> 214) \<or> (216 \<le> n \<and> n \<le> 246) \<or>
     (248 \<le> n \<and> n \<le> 255))"

definition not_newline :: "char \<Rightarrow> bool" where
  "not_newline c = (c \<noteq> newline)"

definition lower_char :: "char \<Rightarrow> char" where
  "lower_char c = (let n = code c in
     if (65 \<le> n \<and> n \<le> 90) \<or> (192 \<le> n \<and> n \<le> 214) \<or> (216 \<le> n \<and> n \<le> 222)
     then char_of (n + 32) else c)"

definition lower :: "string \<Rightarrow> string" where
  "lower s = map lower_char s"

text \<open>\<^verbatim>\<open>s.strip()\<close>: the blanks at both ends go.\<close>

definition rstrip :: "string \<Rightarrow> string" where
  "rstrip s = rev (dropWhile is_space (rev s))"

definition strip :: "string \<Rightarrow> string" where
  "strip s = rstrip (dropWhile is_space s)"

text \<open>\<^verbatim>\<open>s.startswith(p)\<close> is \<^const>\<open>prefix\<close>, the substring test \<^verbatim>\<open>p in s\<close> is \<^const>\<open>sublist\<close>.\<close>

text \<open>\<^verbatim>\<open>s.split(sep)\<close> for a separator of one character: the pieces between the separators,
  always at least one piece.\<close>

fun split_on :: "char \<Rightarrow> string \<Rightarrow> string list" where
  "split_on sep [] = [[]]"
| "split_on sep (c # cs) =
     (if c = sep then [] # split_on sep cs
      else (case split_on sep cs of
              [] \<Rightarrow> [[c]]
            | p # ps \<Rightarrow> (c # p) # ps))"

section \<open>The type encoder (converter\_v3.py, converter\_final.py)\<close>

text \<open>The table \<^verbatim>\<open>self.type_map\<close>, the same sixteen entries in both converters.\<close>

definition type_map :: "string \<rightharpoonup> string" where
  "type_map = map_of
     [(''array'', ''a''), (''string'', ''s''), (''number'', ''n''), (''bool'', ''b''),
      (''object'', ''o''), (''any'', ''*''), (''duration'', ''d''), (''datetime'', ''t''),
      (''record'', ''r''), (''geometry'', ''g''), (''uuid'', ''u''), (''int'', ''i''),
      (''float'', ''f''), (''value'', ''v''), (''null'', ''0''), (''bytes'', ''y'')]"

text \<open>
  \<^verbatim>\<open>re.search(pre + '(.+)>', s)\<close>, returning group 1. At a start position the literal
  \<^verbatim>\<open>pre\<close> must match; \<^verbatim>\<open>.+\<close> is greedy, so it first takes the longest run of characters
  other than the line feed and then gives characters back, one at a time and never below one,
  until a \<^verbatim>\<open>>\<close> follows. The search tries the start positions from left to right.
\<close>

fun greedy_until_gt :: "string \<Rightarrow> nat \<Rightarrow> string option" where
  "greedy_until_gt r 0 = None"
| "greedy_until_gt r (Suc k) =
     (if prefix ''>'' (drop (Suc k) r) then Some (take (Suc k) r)
      else greedy_until_gt r k)"

definition match_angle :: "string \<Rightarrow> string \<Rightarrow> string option" where
  "match_angle pre s =
     (if prefix pre s
      then (let r = drop (length pre) s
            in greedy_until_gt r (length (takeWhile not_newline r)))
      else None)"

fun search_angle :: "string \<Rightarrow> string \<Rightarrow> string option" where
  "search_angle pre [] = match_angle pre []"
| "search_angle pre (c # cs) =
     (case match_angle pre (c # cs) of
        Some g \<Rightarrow> Some g
      | None \<Rightarrow> search_angle pre cs)"

text \<open>The guarded searches of \<^verbatim>\<open>compress_type\<close>: \<^verbatim>\<open>startswith\<close> first, then the search.\<close>

definition array_inner :: "string \<Rightarrow> string option" where
  "array_inner t = (if prefix ''array<'' t then search_angle ''array<'' t else None)"

definition option_inner :: "string \<Rightarrow> string option" where
  "option_inner t = (if prefix ''option<'' t then search_angle ''option<'' t else None)"

lemma prefix_drop_less:
  "prefix [x] (drop n r) \<Longrightarrow> n < length r"
  by (cases "n < length r") (auto simp: prefix_def)

lemma greedy_until_gt_length:
  "greedy_until_gt r k = Some g \<Longrightarrow> length g < length r"
  by (induction k) (auto split: if_splits dest: prefix_drop_less)

lemma match_angle_length:
  "match_angle pre s = Some g \<Longrightarrow> length g < length s"
  by (auto simp: match_angle_def Let_def split: if_splits dest!: greedy_until_gt_length)

lemma search_angle_length:
  "search_angle pre s = Some g \<Longrightarrow> length g < length s"
  by (induction s) (auto split: option.splits dest: match_angle_length)

lemma length_lower [simp]: "length (lower s) = length s"
  by (simp add: lower_def)

text \<open>\<^verbatim>\<open>compress_type\<close> of converter\_v3.py, which \<^verbatim>\<open>_compress_type\<close> of converter\_final.py
  repeats line by line.\<close>

function compress_type :: "string \<Rightarrow> string" where
  "compress_type type_str =
     (if type_str = [] then ''*''
      else (case array_inner (lower type_str) of
              Some inner \<Rightarrow> ''a'' @ compress_type inner
            | None \<Rightarrow>
                (case option_inner (lower type_str) of
                   Some inner \<Rightarrow> ''?'' @ compress_type inner
                 | None \<Rightarrow>
                     (case type_map (lower type_str) of
                        Some c \<Rightarrow> c
                      | None \<Rightarrow> ''*''))))"
  by pat_completeness auto
termination
proof (relation "measure length")
  show "wf (measure length)" by simp
next
  fix type_str inner
  assume "array_inner (lower type_str) = Some inner"
  then have "length inner < length (lower type_str)"
    by (auto simp: array_inner_def split: if_splits dest: search_angle_length)
  then show "(inner, type_str) \<in> measure length" by simp
next
  fix type_str inner
  assume "option_inner (lower type_str) = Some inner"
  then have "length inner < length (lower type_str)"
    by (auto simp: option_inner_def split: if_splits dest: search_angle_length)
  then show "(inner, type_str) \<in> measure length" by simp
qed

declare compress_type.simps [simp del]

text \<open>A type string is parametrized for the encoder when one of its two guarded searches
  finds an inner type.\<close>

definition parametrized :: "string \<Rightarrow> bool" where
  "parametrized s = (array_inner (lower s) \<noteq> None \<or> option_inner (lower s) \<noteq> None)"

section \<open>Keyword candidates: whole words of capitals\<close>

text \<open>
  The patterns \<^verbatim>\<open>\b[A-Z]{2,}\b\<close> (converter.py, converter\_v3.py, converter\_final.py) and
  \<^verbatim>\<open>\b([A-Z_]+)\<close>\<^verbatim>\<open>\b\<close> (converter\_v2.py, converter\_final.py) under \<^verbatim>\<open>re.findall\<close>.
  \<^verbatim>\<open>\b\<close> holds between two neighbours of which exactly one is a word character; the
  ends of the string count as non-word neighbours. At a start position the pattern wants a
  boundary, then takes the longest run of the class and gives characters back, one at a
  time and never below the minimum, until a boundary follows. \<^verbatim>\<open>findall\<close> scans from
  left to right; after a match it goes on behind it, otherwise one character further.
\<close>

definition first :: "string \<Rightarrow> char option" where
  "first s = (case s of [] \<Rightarrow> None | c # _ \<Rightarrow> Some c)"

definition word_opt :: "char option \<Rightarrow> bool" where
  "word_opt x = (case x of None \<Rightarrow> False | Some c \<Rightarrow> is_word c)"

definition boundary :: "char option \<Rightarrow> char option \<Rightarrow> bool" where
  "boundary a b = (word_opt a \<noteq> word_opt b)"

fun give_back :: "string \<Rightarrow> nat \<Rightarrow> nat \<Rightarrow> nat option" where
  "give_back s mn 0 = None"
| "give_back s mn (Suc k) =
     (if Suc k < mn then None
      else if boundary (first (drop k s)) (first (drop (Suc k) s)) then Some (Suc k)
      else give_back s mn k)"

definition match_word_run :: "(char \<Rightarrow> bool) \<Rightarrow> nat \<Rightarrow> char option \<Rightarrow> string \<Rightarrow> nat option" where
  "match_word_run P mn prev s =
     (if boundary prev (first s) then give_back s mn (length (takeWhile P s)) else None)"

lemma give_back_pos: "give_back s mn k = Some n \<Longrightarrow> 0 < n \<and> n \<le> k"
  by (induction k) (auto split: if_splits)

lemma match_word_run_pos: "match_word_run P mn prev s = Some n \<Longrightarrow> 0 < n"
  by (auto simp: match_word_run_def split: if_splits dest: give_back_pos)

function findall_word_run ::
  "(char \<Rightarrow> bool) \<Rightarrow> nat \<Rightarrow> char option \<Rightarrow> string \<Rightarrow> string list" where
  "findall_word_run P mn prev [] = []"
| "findall_word_run P mn prev (c # cs) =
     (case match_word_run P mn prev (c # cs) of
        Some n \<Rightarrow>
          take n (c # cs) #
          findall_word_run P mn (first (drop (n - 1) (c # cs))) (drop n (c # cs))
      | None \<Rightarrow> findall_word_run P mn (Some c) cs)"
  by pat_completeness auto
termination
proof (relation "measure (\<lambda>(P, mn, prev, s). length s)")
  show "wf (measure (\<lambda>(P, mn, prev, s). length s))" by simp
next
  fix P :: "char \<Rightarrow> bool" and mn prev c cs
  assume "match_word_run P mn prev (c # cs) = None"
  show "((P, mn, Some c, cs), (P, mn, prev, c # cs)) \<in> measure (\<lambda>(P, mn, prev, s). length s)"
    by simp
next
  fix P :: "char \<Rightarrow> bool" and mn prev c cs n
  assume "match_word_run P mn prev (c # cs) = Some n"
  then have "0 < n" by (rule match_word_run_pos)
  then show "((P, mn, first (drop (n - 1) (c # cs)), drop n (c # cs)), (P, mn, prev, c # cs))
      \<in> measure (\<lambda>(P, mn, prev, s). length s)"
    by simp
qed

declare findall_word_run.simps(2) [simp del]

text \<open>\<^verbatim>\<open>re.findall(r'\b[A-Z]{2,}\b', line)\<close>; the same list with the group written around the
  run.\<close>

definition findall_caps :: "string \<Rightarrow> string list" where
  "findall_caps line = findall_word_run is_AZ 2 None line"

text \<open>\<^verbatim>\<open>re.findall(r'\b([A-Z_]+)\<close>\<^verbatim>\<open>\b', line)\<close>.\<close>

definition findall_caps_us :: "string \<Rightarrow> string list" where
  "findall_caps_us line = findall_word_run is_AZ_us 1 None line"

section \<open>The ultra-compressed statements (converter\_v3.py, converter\_final.py)\<close>

text \<open>A statement entry of the raw extraction; the tiers read its \<^verbatim>\<open>syntax\<close> list only,
  which may be missing (the field is \<open>syntax_list\<close> here).\<close>

record stmt_data =
  syntax_list :: "string list option"

text \<open>\<^verbatim>\<open>not stmt_data.get('syntax')\<close>: the key is missing or the list is empty.\<close>

definition syntax_missing :: "stmt_data \<Rightarrow> bool" where
  "syntax_missing d = (case syntax_list d of None \<Rightarrow> True | Some bs \<Rightarrow> bs = [])"

text \<open>The inner loop over the first three lines, the same in both converters:
  \<^verbatim>\<open>keywords.extend(w for w in words if not w.startswith('@'))\<close>.\<close>

definition line_keywords :: "string \<Rightarrow> string list" where
  "line_keywords line = filter (\<lambda>w. \<not> prefix ''@'' w) (findall_caps line)"

definition head_keywords :: "string \<Rightarrow> string list" where
  "head_keywords syn = concat (map line_keywords (take 3 (split_on newline syn)))"

text \<open>The loop of converter\_v3.py that keeps the first three distinct keywords.\<close>

fun essential_loop :: "string list \<Rightarrow> string list \<Rightarrow> string list" where
  "essential_loop [] essential = essential"
| "essential_loop (k # ks) essential =
     essential_loop ks
       (if k \<notin> set essential \<and> length essential < 3 then essential @ [k] else essential)"

text \<open>The emitted entry \<^verbatim>\<open>{'k': ...}\<close>.\<close>

record compressed_stmt =
  k_list :: "string list"

text \<open>\<^verbatim>\<open>compress_statement\<close> of converter\_v3.py; \<^const>\<open>None\<close> is its \<^verbatim>\<open>return None\<close>.\<close>

definition compress_statement :: "string \<Rightarrow> stmt_data \<Rightarrow> compressed_stmt option" where
  "compress_statement stmt_name d =
     (case syntax_list d of
        None \<Rightarrow> None
      | Some [] \<Rightarrow> None
      | Some (syn # _) \<Rightarrow> Some \<lparr>k_list = essential_loop (head_keywords syn) []\<rparr>)"

text \<open>\<^verbatim>\<open>sep.join(parts)\<close>.\<close>

fun join :: "string \<Rightarrow> string list \<Rightarrow> string" where
  "join sep [] = []"
| "join sep [p] = p"
| "join sep (p # q # ps) = p @ sep @ join sep (q # ps)"

text \<open>\<^verbatim>\<open>_abbreviate_statement\<close>, with the table of each converter.\<close>

definition abbreviations_v3 :: "string \<rightharpoonup> string" where
  "abbreviations_v3 = map_of
     [(''select'', ''sel''), (''insert'', ''ins''), (''update'', ''upd''), (''delete'', ''del''),
      (''create'', ''cre''), (''alter'', ''alt''), (''define'', ''def''), (''remove'', ''rem''),
      (''relate'', ''rel''), (''return'', ''ret''), (''continue'', ''cont''),
      (''database'', ''db''), (''namespace'', ''ns''), (''function'', ''fn''),
      (''indexes'', ''idx''), (''table'', ''tbl'')]"

definition abbreviations_final :: "string \<rightharpoonup> string" where
  "abbreviations_final = map_of
     [(''select'', ''sel''), (''insert'', ''ins''), (''update'', ''upd''), (''delete'', ''del''),
      (''create'', ''cre''), (''alter'', ''alt''), (''define'', ''def''), (''remove'', ''rem'')]"

definition abbreviate_part :: "(string \<rightharpoonup> string) \<Rightarrow> string \<Rightarrow> string" where
  "abbreviate_part abbreviations p = (case abbreviations p of Some a \<Rightarrow> a | None \<Rightarrow> take 3 p)"

definition abbreviate_statement :: "(string \<rightharpoonup> string) \<Rightarrow> string \<Rightarrow> string" where
  "abbreviate_statement abbreviations stmt_name =
     (if CHR ''/'' \<in> set stmt_name
      then join ''/'' (map (abbreviate_part abbreviations) (split_on (CHR ''/'') stmt_name))
      else abbreviate_part abbreviations stmt_name)"

text \<open>
  A Python \<^verbatim>\<open>dict\<close> that is written key by key is an association list in insertion order;
  \<^verbatim>\<open>d[key] = v\<close> is \<^const>\<open>AList.update\<close>: a key already there keeps its place and takes the new
  value, a new key goes to the end. The statements of the raw extraction come as such a list.
\<close>

text \<open>The statement loop of \<^verbatim>\<open>convert_all\<close> in converter\_v3.py.\<close>

definition v3_step :: "string \<times> stmt_data \<Rightarrow> (string \<times> compressed_stmt) list \<Rightarrow> (string \<times> compressed_stmt) list" where
  "v3_step e stmts =
     (case compress_statement (fst e) (snd e) of
        None \<Rightarrow> stmts
      | Some compressed \<Rightarrow>
          AList.update (abbreviate_statement abbreviations_v3 (fst e)) compressed stmts)"

definition v3_stmts :: "(string \<times> stmt_data) list \<Rightarrow> (string \<times> compressed_stmt) list" where
  "v3_stmts statements = fold v3_step statements []"

text \<open>The statement loop of \<^verbatim>\<open>create_compressed_schema\<close> in converter\_final.py.\<close>

definition final_compressed_step :: "string \<times> stmt_data \<Rightarrow> (string \<times> compressed_stmt) list \<Rightarrow> (string \<times> compressed_stmt) list" where
  "final_compressed_step e stmts =
     (case syntax_list (snd e) of
        None \<Rightarrow> stmts
      | Some [] \<Rightarrow> stmts
      | Some (syn # _) \<Rightarrow>
          AList.update (abbreviate_statement abbreviations_final (fst e))
            \<lparr>k_list = take 3 (head_keywords syn)\<rparr> stmts)"

definition final_compressed_stmts :: "(string \<times> stmt_data) list \<Rightarrow> (string \<times> compressed_stmt) list" where
  "final_compressed_stmts statements = fold final_compressed_step statements []"

section \<open>Backtracking pieces of the other patterns\<close>

text \<open>
  The remaining patterns are written with three pieces, each taking the rest of the pattern
  as a continuation, so that a failure further right makes the piece try its next choice, as
  the matcher of \<^verbatim>\<open>re\<close> does. \<open>lit\<close> is a literal. \<open>greedy P mn\<close> is a repetition of a
  character class with at least \<open>mn\<close> characters: it tries the longest run first and then
  gives back one character at a time. \<open>lazy P\<close> is the reluctant repetition \<^verbatim>\<open>*?\<close>: it tries
  the empty run first and then takes one character at a time. The continuation gets the
  number of characters taken and the rest of the text.
\<close>

definition lit :: "string \<Rightarrow> string \<Rightarrow> (string \<Rightarrow> 'a option) \<Rightarrow> 'a option" where
  "lit l s cont = (if prefix l s then cont (drop (length l) s) else None)"

fun try_down :: "(nat \<Rightarrow> 'a option) \<Rightarrow> nat \<Rightarrow> nat \<Rightarrow> 'a option" where
  "try_down f mn 0 = (if mn = 0 then f 0 else None)"
| "try_down f mn (Suc j) =
     (if Suc j < mn then None
      else (case f (Suc j) of
              Some r \<Rightarrow> Some r
            | None \<Rightarrow> try_down f mn j))"

definition greedy ::
  "(char \<Rightarrow> bool) \<Rightarrow> nat \<Rightarrow> string \<Rightarrow> (nat \<Rightarrow> string \<Rightarrow> 'a option) \<Rightarrow> 'a option" where
  "greedy P mn s cont = try_down (\<lambda>j. cont j (drop j s)) mn (length (takeWhile P s))"

fun lazy_from ::
  "(char \<Rightarrow> bool) \<Rightarrow> nat \<Rightarrow> string \<Rightarrow> (nat \<Rightarrow> string \<Rightarrow> 'a option) \<Rightarrow> 'a option" where
  "lazy_from P j [] cont = cont j []"
| "lazy_from P j (c # cs) cont =
     (case cont j (c # cs) of
        Some r \<Rightarrow> Some r
      | None \<Rightarrow> if P c then lazy_from P (Suc j) cs cont else None)"

definition lazy ::
  "(char \<Rightarrow> bool) \<Rightarrow> string \<Rightarrow> (nat \<Rightarrow> string \<Rightarrow> 'a option) \<Rightarrow> 'a option" where
  "lazy P s cont = lazy_from P 0 s cont"

text \<open>\<^verbatim>\<open>$\<close> without the multi-line flag: the end of the text, or just before a line feed that
  ends the text.\<close>

definition at_end :: "string \<Rightarrow> bool" where
  "at_end s = (s = [] \<or> s = [newline])"

section \<open>The grammar line parser (converter.py)\<close>

definition not_bracket :: "char \<Rightarrow> bool" where
  "not_bracket c = (c \<noteq> CHR ''['' \<and> c \<noteq> CHR '']'')"

text \<open>
  One attempt of \<^verbatim>\<open>\[\s*([^[\]]+)\s*\]\<close> at the start of the text: the group and the length
  of the whole match.
\<close>

definition match_optional :: "string \<Rightarrow> (string \<times> nat) option" where
  "match_optional s =
     lit ''['' s (\<lambda>r0.
       greedy is_space 0 r0 (\<lambda>a r1.
         greedy not_bracket 1 r1 (\<lambda>b r2.
           greedy is_space 0 r2 (\<lambda>c r3.
             lit '']'' r3 (\<lambda>r4. Some (take b r1, 1 + a + b + c + 1))))))"

lemma lit_pos:
  "lit l s (\<lambda>r. cont r) = Some x \<Longrightarrow> \<exists>r. cont r = Some x"
  by (auto simp: lit_def split: if_splits)

lemma try_down_Some:
  "try_down f mn j = Some x \<Longrightarrow> \<exists>i. f i = Some x"
  by (induction j) (auto split: if_splits option.splits)

lemma greedy_Some:
  "greedy P mn s cont = Some x \<Longrightarrow> \<exists>i r. cont i r = Some x"
  unfolding greedy_def by (blast dest: try_down_Some)

lemma match_optional_pos:
  assumes "match_optional s = Some (g, e)"
  shows "0 < e"
proof -
  from assms obtain r0 where
    "greedy is_space 0 r0 (\<lambda>a r1.
         greedy not_bracket 1 r1 (\<lambda>b r2.
           greedy is_space 0 r2 (\<lambda>c r3.
             lit '']'' r3 (\<lambda>r4. Some (take b r1, 1 + a + b + c + 1))))) = Some (g, e)"
    unfolding match_optional_def by (blast dest: lit_pos)
  then obtain a r1 where
    "greedy not_bracket 1 r1 (\<lambda>b r2.
           greedy is_space 0 r2 (\<lambda>c r3.
             lit '']'' r3 (\<lambda>r4. Some (take b r1, 1 + a + b + c + 1)))) = Some (g, e)"
    by (blast dest: greedy_Some)
  then obtain b r2 where
    "greedy is_space 0 r2 (\<lambda>c r3.
             lit '']'' r3 (\<lambda>r4. Some (take b r1, 1 + a + b + c + 1))) = Some (g, e)"
    by (blast dest: greedy_Some)
  then obtain c r3 where
    "lit '']'' r3 (\<lambda>r4. Some (take b r1, 1 + a + b + c + 1)) = Some (g, e)"
    by (blast dest: greedy_Some)
  then show ?thesis
    by (auto simp: lit_def split: if_splits)
qed

text \<open>\<^verbatim>\<open>re.findall(optional_pattern, line)\<close>: the groups of the matches, left to right, a
  match never overlapping the one before.\<close>

function findall_optional :: "string \<Rightarrow> string list" where
  "findall_optional [] = []"
| "findall_optional (c # cs) =
     (case match_optional (c # cs) of
        Some (g, e) \<Rightarrow> g # findall_optional (drop e (c # cs))
      | None \<Rightarrow> findall_optional cs)"
  by pat_completeness auto
termination
proof (relation "measure length")
  show "wf (measure length)" by simp
next
  fix c cs
  show "(cs, c # cs) \<in> measure length" by simp
next
  fix c cs x g e
  assume "match_optional (c # cs) = Some x" "(g, e) = x"
  then have "0 < e" using match_optional_pos [of "c # cs" g e] by simp
  then show "(drop e (c # cs), c # cs) \<in> measure length" by simp
qed

declare findall_optional.simps(2) [simp del]

text \<open>\<^verbatim>\<open>re.findall(r'@(\w+)', line)\<close>: after an at-sign the longest run of word characters,
  which must not be empty.\<close>

function findall_vars :: "string \<Rightarrow> string list" where
  "findall_vars [] = []"
| "findall_vars (c # cs) =
     (if c = CHR ''@'' \<and> takeWhile is_word cs \<noteq> []
      then takeWhile is_word cs # findall_vars (dropWhile is_word cs)
      else findall_vars cs)"
  by pat_completeness auto
termination
  by (relation "measure length") (auto simp: length_dropWhile_le less_Suc_eq_le)

declare findall_vars.simps(2) [simp del]

text \<open>The dictionary \<^verbatim>\<open>result\<close> of \<^verbatim>\<open>parse_bnf_line\<close>: each of the four keys is there or not.\<close>

record parsed_line =
  pl_optional_choices :: "string list option"
  pl_optional :: "string option"
  pl_variables :: "string list option"
  pl_keywords :: "string list option"

definition empty_line :: parsed_line where
  "empty_line = \<lparr>pl_optional_choices = None, pl_optional = None,
     pl_variables = None, pl_keywords = None\<rparr>"

text \<open>The choices of a span that holds a bar:
  \<^verbatim>\<open>[c for c in (choice.strip() for choice in match.split('|')) if c and not c.startswith('@')]\<close>.\<close>

definition choices_of :: "string \<Rightarrow> string list" where
  "choices_of m =
     filter (\<lambda>c. c \<noteq> [] \<and> \<not> prefix ''@'' c) (map strip (split_on (CHR ''|'') m))"

text \<open>The body of the loop \<^verbatim>\<open>for match in optional_matches\<close>.\<close>

definition handle_match :: "string \<Rightarrow> parsed_line \<Rightarrow> parsed_line" where
  "handle_match m result =
     (if CHR ''|'' \<in> set m
      then (if choices_of m \<noteq> []
            then result\<lparr>pl_optional_choices := Some (choices_of m)\<rparr>
            else result)
      else (if \<not> prefix ''@'' m
            then result\<lparr>pl_optional := Some (strip m)\<rparr>
            else result))"

text \<open>\<^verbatim>\<open>any(keyword in opt for opt in optional_matches)\<close>.\<close>

definition in_some_optional :: "string list \<Rightarrow> string \<Rightarrow> bool" where
  "in_some_optional optional_matches keyword = list_ex (sublist keyword) optional_matches"

definition filtered_keywords :: "string \<Rightarrow> string list" where
  "filtered_keywords line =
     filter (\<lambda>keyword. \<not> in_some_optional (findall_optional line) keyword) (findall_caps line)"

definition present :: "'a list \<Rightarrow> 'a list option" where
  "present xs = (if xs = [] then None else Some xs)"

definition parse_bnf_line :: "string \<Rightarrow> parsed_line" where
  "parse_bnf_line line0 =
     (let line = strip line0 in
      if line = [] then empty_line
      else (fold handle_match (findall_optional line) empty_line)
             \<lparr>pl_variables := present (findall_vars line),
              pl_keywords := present (filtered_keywords line)\<rparr>)"

text \<open>The keyword set of a parsed line: the list under the key, nothing when the key is
  missing.\<close>

definition keyword_set :: "parsed_line \<Rightarrow> string set" where
  "keyword_set r = (case pl_keywords r of None \<Rightarrow> {} | Some ks \<Rightarrow> set ks)"

section \<open>The statement aggregator (converter.py)\<close>

text \<open>
  A Python \<^verbatim>\<open>set\<close> that is only filled and then sorted: \<^verbatim>\<open>sorted(list(s))\<close> is the sorted
  list of its distinct members, whatever the order the set hands them out in. Python orders
  strings by code points, lexicographically, which is the order of \<^typ>\<open>string\<close> here.
\<close>

definition sorted_set :: "string list \<Rightarrow> string list" where
  "sorted_set xs = sort (remdups xs)"

text \<open>The dictionary \<^verbatim>\<open>statement_structure\<close>; the key \<^verbatim>\<open>components\<close> always holds the empty
  dictionary and is left out.\<close>

record statement_structure =
  ss_syntax :: string
  ss_variables :: "string list option"
  ss_keywords :: "string list option"
  ss_optional :: "string list list option"

text \<open>\<^verbatim>\<open>if parsed:\<close> keeps the dictionaries that have a key.\<close>

definition nonempty_line :: "parsed_line \<Rightarrow> bool" where
  "nonempty_line r = (r \<noteq> empty_line)"

definition parsed_lines :: "string \<Rightarrow> parsed_line list" where
  "parsed_lines syntax_block =
     filter nonempty_line (map parse_bnf_line (split_on newline syntax_block))"

definition opt_list :: "'a list option \<Rightarrow> 'a list" where
  "opt_list x = (case x of None \<Rightarrow> [] | Some xs \<Rightarrow> xs)"

text \<open>What one parsed line appends to \<^verbatim>\<open>optional_components\<close>: its choice group, then its
  single optional item in a list of its own.\<close>

definition line_optionals :: "parsed_line \<Rightarrow> string list list" where
  "line_optionals r =
     (case pl_optional_choices r of None \<Rightarrow> [] | Some cs \<Rightarrow> [cs]) @
     (case pl_optional r of None \<Rightarrow> [] | Some opt \<Rightarrow> [[opt]])"

definition convert_statement_syntax :: "string \<Rightarrow> statement_structure" where
  "convert_statement_syntax syntax_block =
     (let ps = parsed_lines syntax_block;
          all_variables = concat (map (\<lambda>r. opt_list (pl_variables r)) ps);
          all_keywords = concat (map (\<lambda>r. opt_list (pl_keywords r)) ps);
          optional_components = concat (map line_optionals ps)
      in \<lparr>ss_syntax = syntax_block,
          ss_variables = present (sorted_set all_variables),
          ss_keywords = present (sorted_set all_keywords),
          ss_optional = present optional_components\<rparr>)"

text \<open>An entry of the first extractor's output, as \<^verbatim>\<open>process_statements\<close> reads it:
  \<^verbatim>\<open>data['syntax_blocks']\<close> is required, the three texts are read with \<^verbatim>\<open>data.get(key, '')\<close>.\<close>

record raw_entry =
  syntax_blocks :: "string list"
  title :: "string option"
  description :: "string option"
  sidebar_label :: "string option"

record metadata =
  md_title :: string
  md_description :: string
  md_sidebar_label :: string

definition get_or_empty :: "string option \<Rightarrow> string" where
  "get_or_empty x = (case x of None \<Rightarrow> [] | Some v \<Rightarrow> v)"

definition entry_metadata :: "raw_entry \<Rightarrow> metadata" where
  "entry_metadata d = \<lparr>md_title = get_or_empty (title d),
     md_description = get_or_empty (description d),
     md_sidebar_label = get_or_empty (sidebar_label d)\<rparr>"

text \<open>
  What \<^verbatim>\<open>process_statements\<close> stores under the statement's name: the structure of the one
  block, or the dictionary with the list \<^verbatim>\<open>variants\<close>; in both the key \<^verbatim>\<open>metadata\<close> is set
  afterwards, on that stored dictionary. The place in the nested dictionary, built from the
  dotted hierarchy, is not part of this model.
\<close>

datatype statement_record =
  Single statement_structure metadata
| Variants "statement_structure list" metadata

definition process_statement :: "raw_entry \<Rightarrow> statement_record" where
  "process_statement d =
     (if length (syntax_blocks d) = 1
      then Single (convert_statement_syntax (syntax_blocks d ! 0)) (entry_metadata d)
      else Variants (map convert_statement_syntax (syntax_blocks d)) (entry_metadata d))"

text \<open>The variant records and the metadata dictionaries a stored record holds.\<close>

fun variants :: "statement_record \<Rightarrow> statement_structure list" where
  "variants (Single st md) = []"
| "variants (Variants vs md) = vs"

fun metadata_of :: "statement_record \<Rightarrow> metadata list" where
  "metadata_of (Single st md) = [md]"
| "metadata_of (Variants vs md) = [md]"

text \<open>The keywords and variables that the lines of one block yield.\<close>

definition block_keywords :: "string \<Rightarrow> string set" where
  "block_keywords b = (\<Union>line \<in> set (split_on newline b). keyword_set (parse_bnf_line line))"

definition block_variables :: "string \<Rightarrow> string set" where
  "block_variables b =
     (\<Union>line \<in> set (split_on newline b). set (opt_list (pl_variables (parse_bnf_line line))))"

section \<open>The function signature parser (extractor\_v2.py)\<close>

text \<open>\<^verbatim>\<open>_split_params\<close>: the loop over the characters with the state \<^verbatim>\<open>params\<close>,
  \<^verbatim>\<open>current\<close>, \<^verbatim>\<open>depth\<close>; the depth is a Python integer and may go below zero.\<close>

definition split_step :: "char \<Rightarrow> string list \<times> string \<times> int \<Rightarrow> string list \<times> string \<times> int" where
  "split_step ch st =
     (case st of (params, current, depth) \<Rightarrow>
        if ch = CHR '','' \<and> depth = 0 then (params @ [strip current], [], depth)
        else if ch \<in> set ''([{<'' then (params, current @ [ch], depth + 1)
        else if ch \<in> set '')]}>'' then (params, current @ [ch], depth - 1)
        else (params, current @ [ch], depth))"

definition split_params :: "string \<Rightarrow> string list" where
  "split_params params_str =
     (case fold split_step params_str ([], [], 0) of
        (params, current, depth) \<Rightarrow>
          if current \<noteq> [] then params @ [strip current] else params)"

text \<open>A parameter dictionary: the key \<^verbatim>\<open>name\<close> may be missing, the key \<^verbatim>\<open>type\<close> is always
  there.\<close>

record parameter =
  p_name :: "string option"
  p_type :: string

text \<open>\<^verbatim>\<open>param.split(':', 1)\<close> for a text that holds a colon: the text before the first colon
  and the text after it.\<close>

definition split_first_colon :: "string \<Rightarrow> string \<times> string" where
  "split_first_colon s =
     (takeWhile (\<lambda>c. c \<noteq> CHR '':'') s, drop 1 (dropWhile (\<lambda>c. c \<noteq> CHR '':'') s))"

definition parse_param :: "string \<Rightarrow> parameter list" where
  "parse_param param0 =
     (let param = strip param0 in
      if param = [] then []
      else if CHR '':'' \<in> set param
      then (case split_first_colon param of
              (name, ptype) \<Rightarrow> [\<lparr>p_name = Some (strip name), p_type = strip ptype\<rparr>])
      else [\<lparr>p_name = None, p_type = param\<rparr>])"

record signature =
  sig_raw :: string
  sig_namespace :: string
  sig_function :: string
  sig_parameters :: "parameter list"
  sig_return_type :: "string option"

text \<open>
  \<^verbatim>\<open>^([a-z_]+)::([a-z_]+)\((.*?)\)(?:\s*->\s*(.+))?$\<close> under \<^verbatim>\<open>re.match\<close>: the four groups.
  The group in \<^verbatim>\<open>(?: )?\<close> is tried first and left out when no match comes of it.
\<close>

definition arrow_group :: "string \<Rightarrow> string option" where
  "arrow_group s =
     greedy is_space 0 s (\<lambda>a r1.
       lit ''->'' r1 (\<lambda>r2.
         greedy is_space 0 r2 (\<lambda>b r3.
           greedy not_newline 1 r3 (\<lambda>c r4.
             if at_end r4 then Some (take c r3) else None))))"

definition match_signature :: "string \<Rightarrow> (string \<times> string \<times> string \<times> string option) option" where
  "match_signature s =
     greedy is_az_us 1 s (\<lambda>a r1.
       lit ''::'' r1 (\<lambda>r2.
         greedy is_az_us 1 r2 (\<lambda>b r3.
           lit ''('' r3 (\<lambda>r4.
             lazy not_newline r4 (\<lambda>c r5.
               lit '')'' r5 (\<lambda>r6.
                 (case arrow_group r6 of
                    Some ret \<Rightarrow> Some (take a s, take b r2, take c r4, Some ret)
                  | None \<Rightarrow>
                      if at_end r6 then Some (take a s, take b r2, take c r4, None)
                      else None)))))))"

text \<open>\<^verbatim>\<open>parse_function_signature\<close>; \<^const>\<open>None\<close> is its \<^verbatim>\<open>return None\<close>.\<close>

definition parse_function_signature :: "string \<Rightarrow> signature option" where
  "parse_function_signature sig =
     (case match_signature (strip sig) of
        None \<Rightarrow> None
      | Some (namespace, function_name, params_str, return_type) \<Rightarrow>
          Some \<lparr>sig_raw = sig,
                sig_namespace = namespace,
                sig_function = function_name,
                sig_parameters = concat (map parse_param (split_params params_str)),
                sig_return_type = map_option strip return_type\<rparr>)"

text \<open>\<^verbatim>\<open>_compress_signature\<close> of converter\_v3.py (and of converter\_final.py, with the same
  text): an empty or missing return type gives \<^verbatim>\<open>*\<close>.\<close>

definition compress_signature :: "signature \<Rightarrow> string" where
  "compress_signature sig =
     join ''>''
       [if sig_parameters sig \<noteq> []
        then concat (map (\<lambda>p. compress_type (p_type p)) (sig_parameters sig))
        else [],
        case sig_return_type sig of
          None \<Rightarrow> ''*''
        | Some rt \<Rightarrow> if rt \<noteq> [] then compress_type rt else ''*'']"

section \<open>The full and the enhanced statements (converter\_final.py, converter\_v2.py)\<close>

text \<open>\<^verbatim>\<open>_parse_statement_syntax\<close>, the key \<^verbatim>\<open>lines\<close>: the stripped lines that are not empty.\<close>

definition parse_statement_syntax :: "string \<Rightarrow> string list" where
  "parse_statement_syntax syn = filter (\<lambda>l. l \<noteq> []) (map strip (split_on newline syn))"

text \<open>
  A Python \<^verbatim>\<open>set\<close> of strings that is filled and then listed with \<^verbatim>\<open>list(s)\<close>. The members
  are kept in the order of their first insertion; \<^verbatim>\<open>s.add(x)\<close> is \<open>set_add\<close>. The order in
  which \<^verbatim>\<open>list(s)\<close> hands the members out is not fixed by the program: it follows the
  hashes of the strings, which the interpreter salts anew in every process. It is therefore
  a parameter \<open>order\<close> of every function that lists a set, a function that permutes the
  members.
\<close>

definition set_add :: "string \<Rightarrow> string list \<Rightarrow> string list" where
  "set_add x s = (if x \<in> set s then s else s @ [x])"

definition iteration_order :: "(string list \<Rightarrow> string list) \<Rightarrow> bool" where
  "iteration_order order = (\<forall>s. distinct s \<longrightarrow> mset (order s) = mset s)"

text \<open>The filter of \<^verbatim>\<open>_extract_keywords\<close> on the matches of one line:
  \<^verbatim>\<open>not match.startswith('@') and len(match) > 1\<close>.\<close>

definition v2_line_keywords :: "string \<Rightarrow> string list" where
  "v2_line_keywords line =
     filter (\<lambda>m. \<not> prefix ''@'' m \<and> 1 < length m) (findall_caps_us line)"

text \<open>\<^verbatim>\<open>_extract_keywords\<close> and \<^verbatim>\<open>_extract_variables\<close>, the same in both converters: the set
  after the loop over the lines.\<close>

definition extract_keywords :: "string list \<Rightarrow> string list" where
  "extract_keywords lines = fold (\<lambda>line kws. fold set_add (v2_line_keywords line) kws) lines []"

definition extract_variables :: "string list \<Rightarrow> string list" where
  "extract_variables lines = fold (\<lambda>line vs. fold set_add (findall_vars line) vs) lines []"

text \<open>\<^verbatim>\<open>re.findall(r'\[([^\]]+)\]', line)\<close> of \<^verbatim>\<open>_extract_optional_parts\<close>.\<close>

definition match_bracket :: "string \<Rightarrow> (string \<times> nat) option" where
  "match_bracket s =
     lit ''['' s (\<lambda>r0.
       greedy (\<lambda>c. c \<noteq> CHR '']'') 1 r0 (\<lambda>a r1.
         lit '']'' r1 (\<lambda>r2. Some (take a r0, 1 + a + 1))))"

lemma match_bracket_pos:
  assumes "match_bracket s = Some (g, e)"
  shows "0 < e"
proof -
  from assms obtain r0 where
    "greedy (\<lambda>c. c \<noteq> CHR '']'') 1 r0 (\<lambda>a r1.
         lit '']'' r1 (\<lambda>r2. Some (take a r0, 1 + a + 1))) = Some (g, e)"
    unfolding match_bracket_def by (blast dest: lit_pos)
  then obtain a r1 where "lit '']'' r1 (\<lambda>r2. Some (take a r0, 1 + a + 1)) = Some (g, e)"
    by (blast dest: greedy_Some)
  then show ?thesis
    by (auto simp: lit_def split: if_splits)
qed

function findall_bracket :: "string \<Rightarrow> string list" where
  "findall_bracket [] = []"
| "findall_bracket (c # cs) =
     (case match_bracket (c # cs) of
        Some (g, e) \<Rightarrow> g # findall_bracket (drop e (c # cs))
      | None \<Rightarrow> findall_bracket cs)"
  by pat_completeness auto
termination
proof (relation "measure length")
  show "wf (measure length)" by simp
next
  fix c cs
  show "(cs, c # cs) \<in> measure length" by simp
next
  fix c cs x g e
  assume "match_bracket (c # cs) = Some x" "(g, e) = x"
  then have "0 < e" using match_bracket_pos [of "c # cs" g e] by simp
  then show "(drop e (c # cs), c # cs) \<in> measure length" by simp
qed

declare findall_bracket.simps(2) [simp del]

definition extract_optional_parts :: "string list \<Rightarrow> string list" where
  "extract_optional_parts lines =
     fold (\<lambda>line opts.
        fold set_add (filter (\<lambda>cleaned. cleaned \<noteq> []) (map strip (findall_bracket line))) opts)
       lines []"

text \<open>
  \<^verbatim>\<open>_extract_pattern\<close>: \<^verbatim>\<open>re.sub(r'\[.*?\]', '', syntax)\<close>, then
  \<^verbatim>\<open>re.sub(r'@\w+', '<var>', pattern)\<close>, then \<^verbatim>\<open>' '.join(pattern.split())[:100]\<close>.
\<close>

definition match_lazy_bracket :: "string \<Rightarrow> nat option" where
  "match_lazy_bracket s =
     lit ''['' s (\<lambda>r0.
       lazy not_newline r0 (\<lambda>a r1.
         lit '']'' r1 (\<lambda>r2. Some (1 + a + 1))))"

lemma lazy_from_Some:
  "lazy_from P j s cont = Some x \<Longrightarrow> \<exists>i r. cont i r = Some x"
  by (induction s arbitrary: j) (auto split: option.splits if_splits)

lemma match_lazy_bracket_pos:
  assumes "match_lazy_bracket s = Some e"
  shows "0 < e"
proof -
  from assms obtain r0 where
    "lazy not_newline r0 (\<lambda>a r1. lit '']'' r1 (\<lambda>r2. Some (1 + a + 1))) = Some e"
    unfolding match_lazy_bracket_def by (blast dest: lit_pos)
  then obtain a r1 where "lit '']'' r1 (\<lambda>r2. Some (1 + a + 1)) = Some e"
    unfolding lazy_def by (blast dest: lazy_from_Some)
  then show ?thesis
    by (auto simp: lit_def split: if_splits)
qed

function sub_brackets :: "string \<Rightarrow> string" where
  "sub_brackets [] = []"
| "sub_brackets (c # cs) =
     (case match_lazy_bracket (c # cs) of
        Some e \<Rightarrow> sub_brackets (drop e (c # cs))
      | None \<Rightarrow> c # sub_brackets cs)"
  by pat_completeness auto
termination
proof (relation "measure length")
  show "wf (measure length)" by simp
next
  fix c cs
  show "(cs, c # cs) \<in> measure length" by simp
next
  fix c cs e
  assume "match_lazy_bracket (c # cs) = Some e"
  then have "0 < e" by (rule match_lazy_bracket_pos)
  then show "(drop e (c # cs), c # cs) \<in> measure length" by simp
qed

declare sub_brackets.simps(2) [simp del]

function sub_vars :: "string \<Rightarrow> string" where
  "sub_vars [] = []"
| "sub_vars (c # cs) =
     (if c = CHR ''@'' \<and> takeWhile is_word cs \<noteq> []
      then ''<var>'' @ sub_vars (dropWhile is_word cs)
      else c # sub_vars cs)"
  by pat_completeness auto
termination
  by (relation "measure length") (auto simp: length_dropWhile_le less_Suc_eq_le)

declare sub_vars.simps(2) [simp del]

text \<open>\<^verbatim>\<open>s.split()\<close>: the runs between blanks.\<close>

function split_blank :: "string \<Rightarrow> string list" where
  "split_blank s =
     (case dropWhile is_space s of
        [] \<Rightarrow> []
      | c # cs \<Rightarrow>
          takeWhile (\<lambda>x. \<not> is_space x) (c # cs) #
          split_blank (dropWhile (\<lambda>x. \<not> is_space x) cs))"
  by pat_completeness auto
termination
proof (relation "measure length")
  show "wf (measure length)" by simp
next
  fix s :: string and c cs
  assume a: "dropWhile is_space s = c # cs"
  have "length (dropWhile (\<lambda>x. \<not> is_space x) cs) \<le> length cs"
    by (rule length_dropWhile_le)
  moreover have "length (c # cs) \<le> length s"
    using length_dropWhile_le [of is_space s] a by simp
  ultimately show "(dropWhile (\<lambda>x. \<not> is_space x) cs, s) \<in> measure length"
    by simp
qed

declare split_blank.simps [simp del]

definition extract_pattern :: "string \<Rightarrow> string" where
  "extract_pattern syn = take 100 (join '' '' (split_blank (sub_vars (sub_brackets syn))))"

text \<open>The entry of a statement in the full schema.\<close>

record full_stmt =
  full_keywords :: "string list"
  full_variables :: "string list"
  full_syntax_pattern :: string

text \<open>The statement loop of \<^verbatim>\<open>create_full_schema\<close> in converter\_final.py.\<close>

definition full_step ::
  "(string list \<Rightarrow> string list) \<Rightarrow> string \<times> stmt_data \<Rightarrow>
     (string \<times> full_stmt) list \<Rightarrow> (string \<times> full_stmt) list" where
  "full_step order e stmts =
     (case syntax_list (snd e) of
        None \<Rightarrow> stmts
      | Some [] \<Rightarrow> stmts
      | Some (syn # _) \<Rightarrow>
          AList.update (fst e)
            \<lparr>full_keywords = take 10 (order (extract_keywords (parse_statement_syntax syn))),
             full_variables = take 10 (order (extract_variables (parse_statement_syntax syn))),
             full_syntax_pattern = extract_pattern syn\<rparr> stmts)"

definition full_stmts ::
  "(string list \<Rightarrow> string list) \<Rightarrow> (string \<times> stmt_data) list \<Rightarrow> (string \<times> full_stmt) list" where
  "full_stmts order statements = fold (full_step order) statements []"

text \<open>The entry of a statement in the enhanced schema, and its route in the intent router.\<close>

record enhanced_stmt =
  enh_keywords :: "string list"
  enh_variables :: "string list"
  enh_optional :: "string list"

record route =
  route_keywords :: "string list"
  route_path :: string

text \<open>\<^verbatim>\<open>stmt_name.replace('/', '_')\<close>.\<close>

definition route_key :: "string \<Rightarrow> string" where
  "route_key stmt_name = map (\<lambda>c. if c = CHR ''/'' then CHR ''_'' else c) stmt_name"

text \<open>The loop of \<^verbatim>\<open>convert_statements\<close> in converter\_v2.py, with \<^verbatim>\<open>_add_statement_route\<close>: the
  state is the dictionary \<^verbatim>\<open>statements\<close> and the routes of the statements.\<close>

definition enhanced_step ::
  "(string list \<Rightarrow> string list) \<Rightarrow> string \<times> stmt_data \<Rightarrow>
     (string \<times> enhanced_stmt) list \<times> (string \<times> route) list \<Rightarrow>
     (string \<times> enhanced_stmt) list \<times> (string \<times> route) list" where
  "enhanced_step order e st =
     (case syntax_list (snd e) of
        None \<Rightarrow> st
      | Some [] \<Rightarrow> st
      | Some (syn # _) \<Rightarrow>
          (let parsed = parse_statement_syntax syn;
               keywords = extract_keywords parsed
           in (AList.update (fst e)
                 \<lparr>enh_keywords = order keywords,
                  enh_variables = order (extract_variables parsed),
                  enh_optional = order (extract_optional_parts parsed)\<rparr> (fst st),
               AList.update (route_key (fst e))
                 \<lparr>route_keywords = take 5 (order keywords),
                  route_path = ''statements.'' @ fst e\<rparr> (snd st))))"

definition convert_statements ::
  "(string list \<Rightarrow> string list) \<Rightarrow> (string \<times> stmt_data) list \<Rightarrow>
     (string \<times> enhanced_stmt) list \<times> (string \<times> route) list" where
  "convert_statements order statements = fold (enhanced_step order) statements ([], [])"

section \<open>Whole words of capitals, stated without the scanner\<close>

text \<open>
  The property that the keyword theorems are stated with. A text \<open>w\<close> is a whole word of the
  class \<open>P\<close> in \<open>s\<close> when \<open>s\<close> splits into a part before, \<open>w\<close> and a part after, \<open>w\<close> is not
  empty, has at least \<open>mn\<close> characters, all of the class, and neither the character before
  \<open>w\<close> nor the one after it is a word character; \<open>prev\<close> is the character before \<open>s\<close>, if
  there is one. \<open>starts_here\<close> is the case of an empty part before.
\<close>

definition before :: "string \<Rightarrow> char option \<Rightarrow> char option" where
  "before pre prev = (if pre = [] then prev else Some (last pre))"

definition whole_word :: "(char \<Rightarrow> bool) \<Rightarrow> nat \<Rightarrow> char option \<Rightarrow> string \<Rightarrow> string \<Rightarrow> bool" where
  "whole_word P mn prev s w =
     (\<exists>pre post. s = pre @ w @ post \<and> w \<noteq> [] \<and> mn \<le> length w \<and> (\<forall>c \<in> set w. P c) \<and>
        \<not> word_opt (before pre prev) \<and> \<not> word_opt (first post))"

definition starts_here :: "(char \<Rightarrow> bool) \<Rightarrow> nat \<Rightarrow> char option \<Rightarrow> string \<Rightarrow> string \<Rightarrow> bool" where
  "starts_here P mn prev s w =
     (\<exists>post. s = w @ post \<and> w \<noteq> [] \<and> mn \<le> length w \<and> (\<forall>c \<in> set w. P c) \<and>
        \<not> word_opt prev \<and> \<not> word_opt (first post))"

text \<open>
  The candidates as the spec words them, for the comparison with the pattern: the maximal
  runs of capitals that have at least two characters, whatever stands next to them.
\<close>

function capital_runs :: "string \<Rightarrow> string list" where
  "capital_runs [] = []"
| "capital_runs (c # cs) =
     (if is_AZ c
      then (if takeWhile is_AZ cs \<noteq> [] then [c # takeWhile is_AZ cs] else []) @
           capital_runs (dropWhile is_AZ cs)
      else capital_runs cs)"
  by pat_completeness auto
termination
  by (relation "measure length") (auto simp: length_dropWhile_le less_Suc_eq_le)

declare capital_runs.simps(2) [simp del]


section \<open>Properties of the string primitives\<close>

lemma lower_char_idem [simp]: "lower_char (lower_char c) = lower_char c"
  by (auto simp: lower_char_def Let_def code_def)

lemma lower_idem [simp]: "lower (lower s) = lower s"
  by (simp add: lower_def)

lemma lower_char_newline [simp]: "lower_char c = newline \<longleftrightarrow> c = newline"
  by (auto simp: lower_char_def Let_def code_def newline_def
      dest: arg_cong [where f = "of_char :: char \<Rightarrow> nat"])

lemma newline_lower_char [simp]: "newline = lower_char c \<longleftrightarrow> c = newline"
  using lower_char_newline [of c] by (metis (no_types))

lemma lower_append [simp]: "lower (xs @ ys) = lower xs @ lower ys"
  by (simp add: lower_def)

lemma lower_Nil_iff [simp]: "lower s = [] \<longleftrightarrow> s = []"
  by (simp add: lower_def)

lemma newline_lower [simp]: "newline \<in> set (lower s) \<longleftrightarrow> newline \<in> set s"
  by (auto simp: lower_def image_iff)

section \<open>The type encoder\<close>

lemma lower_array_lit: "lower ''array<'' = ''array<''"
  by code_simp

lemma lower_option_lit: "lower ''option<'' = ''option<''"
  by code_simp

lemma lower_gt_lit: "lower ''>'' = ''>''"
  by code_simp

text \<open>The encoder lowers its argument first, so it cannot tell a string from its lowered
  form.\<close>

lemma compress_type_lower: "compress_type (lower s) = compress_type s"
proof -
  have "compress_type (lower s) =
     (if lower s = [] then ''*''
      else (case array_inner (lower (lower s)) of
              Some inner \<Rightarrow> ''a'' @ compress_type inner
            | None \<Rightarrow>
                (case option_inner (lower (lower s)) of
                   Some inner \<Rightarrow> ''?'' @ compress_type inner
                 | None \<Rightarrow>
                     (case type_map (lower (lower s)) of
                        Some c \<Rightarrow> c
                      | None \<Rightarrow> ''*''))))"
    by (rule compress_type.simps)
  also have "\<dots> = compress_type s"
    by (simp add: compress_type.simps [of s] cong: option.case_cong)
  finally show ?thesis .
qed

lemma greedy_until_gt_hit:
  "t \<noteq> [] \<Longrightarrow> greedy_until_gt (t @ ''>'') (Suc (length t)) = Some t"
  by (cases t rule: rev_cases) (auto simp: prefix_def)

lemma match_angle_wrapped:
  assumes "t \<noteq> []" "newline \<notin> set t"
  shows "match_angle pre (pre @ t @ ''>'') = Some t"
proof -
  have "takeWhile not_newline (t @ ''>'') = t @ ''>''"
    using assms by (auto simp: not_newline_def newline_def)
  then show ?thesis
    using assms by (simp add: match_angle_def greedy_until_gt_hit del: greedy_until_gt.simps)
qed

lemma search_angle_wrapped:
  assumes "t \<noteq> []" "newline \<notin> set t"
  shows "search_angle pre (pre @ t @ ''>'') = Some t"
proof (cases "pre @ t @ ''>''")
  case Nil
  then show ?thesis by simp
next
  case (Cons c cs)
  have "match_angle pre (c # cs) = Some t"
    using match_angle_wrapped [OF assms, of pre] Cons by simp
  then show ?thesis using Cons by simp
qed

lemma compress_type_array:
  assumes "T \<noteq> []" "newline \<notin> set T"
  shows "compress_type (''array<'' @ T @ ''>'') = ''a'' @ compress_type T"
proof -
  have l: "lower (''array<'' @ T @ ''>'') = ''array<'' @ lower T @ ''>''"
    by (simp only: lower_append lower_array_lit lower_gt_lit)
  have "array_inner (''array<'' @ lower T @ ''>'') = Some (lower T)"
    unfolding array_inner_def using search_angle_wrapped [of "lower T" "''array<''"] assms
    by simp
  then have ai: "array_inner (lower (''array<'' @ T @ ''>'')) = Some (lower T)"
    by (simp only: l)
  have ne: "''array<'' @ T @ ''>'' \<noteq> []" by simp
  show ?thesis
    by (subst compress_type.simps) (simp only: ne ai if_False option.case compress_type_lower)
qed

lemma compress_type_option:
  assumes "T \<noteq> []" "newline \<notin> set T"
  shows "compress_type (''option<'' @ T @ ''>'') = ''?'' @ compress_type T"
proof -
  have l: "lower (''option<'' @ T @ ''>'') = ''option<'' @ lower T @ ''>''"
    by (simp only: lower_append lower_option_lit lower_gt_lit)
  have "option_inner (''option<'' @ lower T @ ''>'') = Some (lower T)"
    unfolding option_inner_def using search_angle_wrapped [of "lower T" "''option<''"] assms
    by simp
  then have oi: "option_inner (lower (''option<'' @ T @ ''>'')) = Some (lower T)"
    by (simp only: l)
  have "array_inner (''option<'' @ lower T @ ''>'') = None"
    by (simp add: array_inner_def)
  then have ai: "array_inner (lower (''option<'' @ T @ ''>'')) = None"
    by (simp only: l)
  have ne: "''option<'' @ T @ ''>'' \<noteq> []" by simp
  show ?thesis
    by (subst compress_type.simps) (simp only: ne ai oi if_False option.case compress_type_lower)
qed

lemma compress_type_unknown:
  "type_map (lower s) = None \<Longrightarrow> \<not> parametrized s \<Longrightarrow> compress_type s = ''*''"
  by (subst compress_type.simps) (simp add: parametrized_def)

lemma compress_type_nested_example: "compress_type ''array<option<int>>'' = ''a?i''"
  by code_simp

lemma compress_type_any: "compress_type ''any'' = ''*''"
  by code_simp

lemma compress_type_empty: "compress_type [] = ''*''"
  by code_simp

text \<open>
  Claim C3, as the spec words it: the encoding of \<^verbatim>\<open>array<T>\<close> is \<^verbatim>\<open>a\<close> followed by the
  encoding of \<^verbatim>\<open>T\<close>, for every \<^verbatim>\<open>T\<close>. The pattern \<^verbatim>\<open>array<(.+)>\<close> wants at least one
  character between the brackets, so at the empty \<^verbatim>\<open>T\<close> the search finds nothing, the
  table has no key \<^verbatim>\<open>array<>\<close>, and the encoder answers \<^verbatim>\<open>*\<close>, where the rule promises
  \<^verbatim>\<open>a*\<close>.
\<close>

theorem compress_type_array_empty_inner:
  "\<not> (compress_type (''array<'' @ [] @ ''>'') = ''a'' @ compress_type [])"
  by code_simp

text \<open>
  Claim C3, amended: for every inner type string \<^verbatim>\<open>T\<close> that is not empty and holds no line
  feed, \<^verbatim>\<open>array<T>\<close> encodes to \<^verbatim>\<open>a\<close> followed by the encoding of \<^verbatim>\<open>T\<close>, and
  \<^verbatim>\<open>option<T>\<close> to \<^verbatim>\<open>?\<close> followed by the encoding of \<^verbatim>\<open>T\<close>; a type string whose
  lowered form is no key of the table and in which neither guarded search finds an inner
  type encodes to \<^verbatim>\<open>*\<close>; and \<^verbatim>\<open>array<option<int>>\<close> encodes to \<^verbatim>\<open>a?i\<close>.
\<close>

theorem compress_type_rules:
  "(T \<noteq> [] \<and> newline \<notin> set T \<longrightarrow>
      compress_type (''array<'' @ T @ ''>'') = ''a'' @ compress_type T \<and>
      compress_type (''option<'' @ T @ ''>'') = ''?'' @ compress_type T) \<and>
   (type_map (lower s) = None \<and> \<not> parametrized s \<longrightarrow> compress_type s = ''*'') \<and>
   compress_type ''array<option<int>>'' = ''a?i''"
  using compress_type_array [of T] compress_type_option [of T] compress_type_unknown [of s]
    compress_type_nested_example
  by blast

lemma witness_inputs:
  "''int'' \<noteq> []" "newline \<notin> set ''int''"
  "type_map (lower ''blob'') = None" "\<not> parametrized ''blob''"
  by code_simp+

theorem compress_type_rules_witness:
  "compress_type ''array<int>'' = ''a'' @ compress_type ''int'' \<and>
   compress_type ''option<int>'' = ''?'' @ compress_type ''int'' \<and>
   compress_type ''blob'' = ''*''"
  using compress_type_rules [of "''int''" "''blob''"] witness_inputs
  by simp

text \<open>
  Claim C10: the table sends \<^verbatim>\<open>any\<close> to \<^verbatim>\<open>*\<close>, and the encoder answers \<^verbatim>\<open>*\<close> for
  \<^verbatim>\<open>any\<close>, for the empty string, and for every type string that misses the table (the
  lookup is made on the lowered string) and is not parametrized; so such a string, the
  empty string and \<^verbatim>\<open>any\<close> have one and the same code.
\<close>

theorem any_empty_unknown_same_code:
  "type_map ''any'' = Some ''*'' \<and>
   compress_type ''any'' = ''*'' \<and>
   compress_type [] = ''*'' \<and>
   (type_map (lower s) = None \<and> \<not> parametrized s \<longrightarrow>
      compress_type s = ''*'' \<and>
      compress_type s = compress_type ''any'' \<and>
      compress_type s = compress_type [])"
  using compress_type_unknown [of s] compress_type_any compress_type_empty
  by (simp add: type_map_def)

theorem any_empty_unknown_same_code_witness:
  "type_map (lower ''Blob'') = None \<and> \<not> parametrized ''Blob'' \<and>
   compress_type ''Blob'' = ''*'' \<and>
   compress_type ''Blob'' = compress_type ''any'' \<and>
   compress_type ''Blob'' = compress_type []"
proof -
  have h: "type_map (lower ''Blob'') = None" "\<not> parametrized ''Blob''"
    by code_simp+
  show ?thesis
    using any_empty_unknown_same_code [of "''Blob''"] h by simp
qed

section \<open>Keyword candidates\<close>

lemma match_word_run_run:
  assumes "match_word_run P mn prev s = Some n"
  shows "0 < n \<and> n \<le> length (takeWhile P s)"
  using assms by (auto simp: match_word_run_def split: if_splits dest: give_back_pos)

lemma take_run_all:
  assumes "n \<le> length (takeWhile P s)"
  shows "\<forall>c \<in> set (take n s). P c"
proof -
  have "take n (takeWhile P s @ dropWhile P s) = take n (takeWhile P s)"
    using assms by (simp only: take_append) simp
  then have "take n s = take n (takeWhile P s)" by simp
  then have "set (take n s) \<subseteq> set (takeWhile P s)" by (simp add: set_take_subset)
  then show ?thesis by (auto dest: set_takeWhileD)
qed

lemma findall_word_run_class:
  "w \<in> set (findall_word_run P mn prev s) \<Longrightarrow> w \<noteq> [] \<and> (\<forall>c \<in> set w. P c)"
proof (induction P mn prev s rule: findall_word_run.induct)
  case (1 P mn prev)
  then show ?case by simp
next
  case (2 P mn prev c cs)
  show ?case
  proof (cases "match_word_run P mn prev (c # cs)")
    case None
    with 2 show ?thesis by (simp add: findall_word_run.simps(2))
  next
    case (Some n)
    from match_word_run_run [OF Some] have n: "0 < n" "n \<le> length (takeWhile P (c # cs))"
      by simp_all
    from 2(3) Some have "w = take n (c # cs) \<or>
        w \<in> set (findall_word_run P mn (first (drop (n - 1) (c # cs))) (drop n (c # cs)))"
      by (simp add: findall_word_run.simps(2))
    then show ?thesis
    proof
      assume w: "w = take n (c # cs)"
      with n(1) have "w \<noteq> []" by (cases n) simp_all
      moreover have "\<forall>c \<in> set w. P c" unfolding w using n(2) by (rule take_run_all)
      ultimately show ?thesis by simp
    next
      assume "w \<in> set (findall_word_run P mn (first (drop (n - 1) (c # cs))) (drop n (c # cs)))"
      with 2(2) [OF Some] show ?thesis .
    qed
  qed
qed

lemma at_not_caps: "\<not> is_AZ (CHR ''@'')" "\<not> is_AZ_us (CHR ''@'')"
  by (simp_all add: is_AZ_def is_AZ_us_def code_def)

lemma caps_no_at: "w \<in> set (findall_caps line) \<Longrightarrow> \<not> prefix ''@'' w"
  using findall_word_run_class [of w is_AZ 2 None line] at_not_caps
  by (cases w) (auto simp: findall_caps_def)

lemma caps_us_no_at: "w \<in> set (findall_caps_us line) \<Longrightarrow> \<not> prefix ''@'' w"
  using findall_word_run_class [of w is_AZ_us 1 None line] at_not_caps
  by (cases w) (auto simp: findall_caps_us_def)

lemma line_keywords_all: "line_keywords line = findall_caps line"
  unfolding line_keywords_def by (rule filter_True) (simp add: caps_no_at)

lemma v2_line_keywords_by_length:
  "v2_line_keywords line = filter (\<lambda>m. 1 < length m) (findall_caps_us line)"
  unfolding v2_line_keywords_def by (rule filter_cong) (auto dest: caps_us_no_at)

text \<open>
  Claim C9: on every line the test \<^verbatim>\<open>not w.startswith('@')\<close> drops nothing. The keywords
  that converter\_v3.py and converter\_final.py take from a line are all the matches of
  \<^verbatim>\<open>\b([A-Z]{2,})\b\<close>, and in \<^verbatim>\<open>_extract_keywords\<close> the filter of the matches of
  \<^verbatim>\<open>\b([A-Z_]+)\<close>\<^verbatim>\<open>\b\<close> is the filter by length alone: a match is never empty and begins
  with a capital or an underscore.
\<close>

theorem at_filter_identity:
  "line_keywords line = findall_caps line \<and>
   v2_line_keywords line = filter (\<lambda>m. 1 < length m) (findall_caps_us line)"
  using line_keywords_all v2_line_keywords_by_length by blast

section \<open>The keyword list of the ultra-compressed tier\<close>

lemma essential_loop_inv:
  assumes "distinct ess" "length ess \<le> 3"
  shows "\<exists>more. essential_loop ks ess = ess @ more \<and> subseq more ks \<and>
     distinct (ess @ more) \<and> length (ess @ more) \<le> 3"
  using assms
proof (induction ks arbitrary: ess)
  case Nil
  then show ?case by simp
next
  case (Cons x ks)
  show ?case
  proof (cases "x \<notin> set ess \<and> length ess < 3")
    case True
    then have d: "distinct (ess @ [x])" "length (ess @ [x]) \<le> 3"
      using Cons.prems by simp_all
    from Cons.IH [OF d] obtain more where
      m: "essential_loop ks (ess @ [x]) = (ess @ [x]) @ more" "subseq more ks"
         "distinct ((ess @ [x]) @ more)" "length ((ess @ [x]) @ more) \<le> 3"
      by blast
    have "subseq (x # more) (x # ks)" using m(2) by simp
    with m True show ?thesis
      by (intro exI [of _ "x # more"]) simp
  next
    case False
    from Cons.IH [OF Cons.prems] obtain more where
      m: "essential_loop ks ess = ess @ more" "subseq more ks"
         "distinct (ess @ more)" "length (ess @ more) \<le> 3"
      by blast
    have "subseq more (x # ks)" using m(2) by (rule list_emb_Cons)
    with m False show ?thesis
      by (intro exI [of _ more]) auto
  qed
qed

lemma essential_loop_props:
  "length (essential_loop ks []) \<le> 3 \<and> distinct (essential_loop ks []) \<and>
   subseq (essential_loop ks []) ks"
  using essential_loop_inv [of "[]" ks] by auto

text \<open>
  In converter\_v3.py a statement with a syntax block gets at most three keywords, no keyword
  twice, in the order in which the first three lines of the first block yield them.
\<close>

lemma v3_keywords_ok:
  assumes "syntax_list d = Some (syn # rest)"
  shows "\<exists>c. compress_statement n d = Some c \<and> length (k_list c) \<le> 3 \<and> distinct (k_list c) \<and>
     subseq (k_list c) (concat (map findall_caps (take 3 (split_on newline syn))))"
proof -
  have "head_keywords syn = concat (map findall_caps (take 3 (split_on newline syn)))"
    unfolding head_keywords_def by (simp add: line_keywords_all cong: map_cong)
  then show ?thesis
    using assms essential_loop_props [of "head_keywords syn"]
    by (simp add: compress_statement_def)
qed

text \<open>
  Claim C2: for a statement with a syntax block the keyword list of the ultra-compressed
  tier has at most three keywords, all from the first three lines of the first block, in
  the order met, and none twice. That holds of converter\_v3.py (\<open>v3_keywords_ok\<close>). It fails
  in converter\_final.py, whose \<^verbatim>\<open>create_compressed_schema\<close> cuts the list with
  \<^verbatim>\<open>keywords[:3]\<close> and never removes a repetition: on the two lines \<^verbatim>\<open>INSERT INTO @what\<close> and
  \<^verbatim>\<open>INSERT IGNORE INTO @what\<close> it emits \<^verbatim>\<open>INSERT\<close> twice, where converter\_v3.py emits three
  distinct keywords.
\<close>

theorem final_compressed_repeats_keyword:
  "final_compressed_stmts
     [(''insert'', \<lparr>syntax_list = Some [''INSERT INTO @what\<newline>INSERT IGNORE INTO @what'']\<rparr>)] =
   [(''ins'', \<lparr>k_list = [''INSERT'', ''INTO'', ''INSERT'']\<rparr>)] \<and>
   \<not> distinct [''INSERT'', ''INTO'', ''INSERT''] \<and>
   v3_stmts
     [(''insert'', \<lparr>syntax_list = Some [''INSERT INTO @what\<newline>INSERT IGNORE INTO @what'']\<rparr>)] =
   [(''ins'', \<lparr>k_list = [''INSERT'', ''INTO'', ''IGNORE'']\<rparr>)]"
  by code_simp

section \<open>The signature of \<^verbatim>\<open>array::add\<close>\<close>

text \<open>
  Claim C6: the signature \<^verbatim>\<open>array::add(array, value) -> array\<close> parses to the namespace
  \<^verbatim>\<open>array\<close>, the function \<^verbatim>\<open>add\<close>, two parameters with the types \<^verbatim>\<open>array\<close> and \<^verbatim>\<open>value\<close> and
  no names, and the return type \<^verbatim>\<open>array\<close>; its compressed form is \<^verbatim>\<open>av>a\<close>.
\<close>

theorem array_add_signature:
  "parse_function_signature ''array::add(array, value) -> array'' =
     Some \<lparr>sig_raw = ''array::add(array, value) -> array'',
           sig_namespace = ''array'',
           sig_function = ''add'',
           sig_parameters = [\<lparr>p_name = None, p_type = ''array''\<rparr>,
                             \<lparr>p_name = None, p_type = ''value''\<rparr>],
           sig_return_type = Some ''array''\<rparr> \<and>
   map_option compress_signature
     (parse_function_signature ''array::add(array, value) -> array'') = Some ''av>a''"
  by code_simp

section \<open>The order of the emitted keyword sets\<close>

text \<open>
  The aggregator of converter.py sorts what it emits, so its lists depend on the members of
  the sets only.
\<close>

lemma sorted_set_order_free: "set xs = set ys \<Longrightarrow> sorted_set xs = sorted_set ys"
  by (simp add: sorted_set_def sorted_list_of_set_sort_remdups [symmetric])

text \<open>
  Claim C1: two runs on the same input give the same output in every tier, and the order in
  which the keyword and variable sets are written does not depend on the iteration order of
  the sets. The code does not keep that: \<^verbatim>\<open>convert_statements\<close> and \<^verbatim>\<open>create_full_schema\<close> emit
  \<^verbatim>\<open>list(keywords)\<close> of a Python set, unsorted, so the emitted order is the order in which
  the set hands its members out. For the statement \<^verbatim>\<open>SELECT @fields FROM @targets\<close> two
  iteration orders give two different outputs, in the enhanced and in the full schema.
\<close>

theorem set_order_shows_in_output:
  "map (\<lambda>e. enh_keywords (snd e))
     (fst (convert_statements id
        [(''select'', \<lparr>syntax_list = Some [''SELECT @fields FROM @targets'']\<rparr>)])) =
     [[''SELECT'', ''FROM'']] \<and>
   map (\<lambda>e. enh_keywords (snd e))
     (fst (convert_statements rev
        [(''select'', \<lparr>syntax_list = Some [''SELECT @fields FROM @targets'']\<rparr>)])) =
     [[''FROM'', ''SELECT'']] \<and>
   full_stmts id [(''select'', \<lparr>syntax_list = Some [''SELECT @fields FROM @targets'']\<rparr>)] \<noteq>
   full_stmts rev [(''select'', \<lparr>syntax_list = Some [''SELECT @fields FROM @targets'']\<rparr>)]"
  by code_simp

text \<open>Both orders used above are iteration orders: each hands out every member once.\<close>

lemma iteration_order_id_rev: "iteration_order id" "iteration_order rev"
  by (simp_all add: iteration_order_def)

section \<open>Entries without syntax blocks\<close>

lemma syntax_missing_cases:
  "syntax_missing d \<longleftrightarrow> syntax_list d = None \<or> syntax_list d = Some []"
  by (auto simp: syntax_missing_def split: option.splits)

lemma full_step_skip: "syntax_missing (snd e) \<Longrightarrow> full_step order e stmts = stmts"
  by (auto simp: full_step_def syntax_missing_cases)

lemma enhanced_step_skip: "syntax_missing (snd e) \<Longrightarrow> enhanced_step order e st = st"
  by (auto simp: enhanced_step_def syntax_missing_cases)

lemma compress_statement_skip: "syntax_missing d \<Longrightarrow> compress_statement n d = None"
  by (auto simp: compress_statement_def syntax_missing_cases)

lemma v3_step_skip: "syntax_missing (snd e) \<Longrightarrow> v3_step e stmts = stmts"
  by (simp add: v3_step_def compress_statement_skip)

lemma final_compressed_step_skip:
  "syntax_missing (snd e) \<Longrightarrow> final_compressed_step e stmts = stmts"
  by (auto simp: final_compressed_step_def syntax_missing_cases)

lemma update_keys: "fst ` set (AList.update k v al) = insert k (fst ` set al)"
  by (induction al) auto

lemma full_step_keys:
  "fst ` set (full_step order e stmts) \<subseteq> insert (fst e) (fst ` set stmts)"
  by (auto simp: full_step_def update_keys split: option.splits list.splits)

lemma full_fold_keys:
  "fst ` set (fold (full_step order) es stmts) \<subseteq> fst ` set es \<union> fst ` set stmts"
proof (induction es arbitrary: stmts)
  case Nil
  then show ?case by simp
next
  case (Cons e es)
  show ?case
    using Cons.IH [of "full_step order e stmts"] full_step_keys [of order e stmts]
    by auto
qed

lemma enhanced_step_keys:
  "fst ` set (fst (enhanced_step order e st)) \<subseteq> insert (fst e) (fst ` set (fst st))"
  by (auto simp: enhanced_step_def update_keys Let_def split: option.splits list.splits)

lemma enhanced_fold_keys:
  "fst ` set (fst (fold (enhanced_step order) es st)) \<subseteq> fst ` set es \<union> fst ` set (fst st)"
proof (induction es arbitrary: st)
  case Nil
  then show ?case by simp
next
  case (Cons e es)
  show ?case
    using Cons.IH [of "enhanced_step order e st"] enhanced_step_keys [of order e st]
    by auto
qed

text \<open>
  The older converter.py is no tier encoder and reads another input, in which the block
  list is required; for an empty list its \<^verbatim>\<open>process_statements\<close> stores an entry with no
  variants.
\<close>

lemma process_statement_no_blocks:
  "syntax_blocks d = [] \<Longrightarrow> process_statement d = Variants [] (entry_metadata d)"
  by (simp add: process_statement_def)

text \<open>
  Claim C8: a statement entry whose \<^verbatim>\<open>syntax\<close> list is missing or empty leaves no trace in
  any tier. Each of the four statement loops (full and ultra-compressed of
  converter\_final.py, enhanced with its router of converter\_v2.py, ultra-compressed of
  converter\_v3.py) gives the same result with the entry as without it, whatever stands
  before and after it; \<^verbatim>\<open>compress_statement\<close> returns nothing for it; and when no other
  entry has its name, the full and the enhanced schema hold no entry under that name.
\<close>

theorem entry_without_syntax_skipped:
  assumes "syntax_missing d"
  shows "full_stmts order (xs @ (n, d) # ys) = full_stmts order (xs @ ys) \<and>
         convert_statements order (xs @ (n, d) # ys) = convert_statements order (xs @ ys) \<and>
         v3_stmts (xs @ (n, d) # ys) = v3_stmts (xs @ ys) \<and>
         final_compressed_stmts (xs @ (n, d) # ys) = final_compressed_stmts (xs @ ys) \<and>
         compress_statement n d = None \<and>
         (n \<notin> fst ` set (xs @ ys) \<longrightarrow>
            n \<notin> fst ` set (full_stmts order (xs @ (n, d) # ys)) \<and>
            n \<notin> fst ` set (fst (convert_statements order (xs @ (n, d) # ys))))"
proof -
  have sk: "syntax_missing (snd (n, d))" using assms by simp
  have 1: "full_stmts order (xs @ (n, d) # ys) = full_stmts order (xs @ ys)"
    by (simp add: full_stmts_def full_step_skip [OF sk])
  have 2: "convert_statements order (xs @ (n, d) # ys) = convert_statements order (xs @ ys)"
    by (simp add: convert_statements_def enhanced_step_skip [OF sk])
  have 3: "v3_stmts (xs @ (n, d) # ys) = v3_stmts (xs @ ys)"
    by (simp add: v3_stmts_def v3_step_skip [OF sk])
  have 4: "final_compressed_stmts (xs @ (n, d) # ys) = final_compressed_stmts (xs @ ys)"
    by (simp add: final_compressed_stmts_def final_compressed_step_skip [OF sk])
  have 5: "compress_statement n d = None"
    using assms by (rule compress_statement_skip)
  have 6: "fst ` set (full_stmts order (xs @ ys)) \<subseteq> fst ` set (xs @ ys)"
    using full_fold_keys [of order "xs @ ys" "[]"] by (simp add: full_stmts_def)
  have 7: "fst ` set (fst (convert_statements order (xs @ ys))) \<subseteq> fst ` set (xs @ ys)"
    using enhanced_fold_keys [of order "xs @ ys" "([], [])"] by (simp add: convert_statements_def)
  show ?thesis
    using 1 2 3 4 5 6 7 by (simp only:) blast
qed

theorem entry_without_syntax_skipped_witness:
  "syntax_missing \<lparr>syntax_list = None\<rparr> \<and>
   full_stmts id [(''use'', \<lparr>syntax_list = Some [''USE NS @ns'']\<rparr>), (''info'', \<lparr>syntax_list = None\<rparr>)] =
     full_stmts id [(''use'', \<lparr>syntax_list = Some [''USE NS @ns'']\<rparr>)] \<and>
   v3_stmts [(''use'', \<lparr>syntax_list = Some [''USE NS @ns'']\<rparr>), (''info'', \<lparr>syntax_list = None\<rparr>)] =
     [(''use'', \<lparr>k_list = [''USE'', ''NS'']\<rparr>)] \<and>
   ''info'' \<notin> fst ` set (full_stmts id
     [(''use'', \<lparr>syntax_list = Some [''USE NS @ns'']\<rparr>), (''info'', \<lparr>syntax_list = None\<rparr>)])"
proof -
  have h: "syntax_missing \<lparr>syntax_list = None\<rparr>"
    by (simp add: syntax_missing_def)
  have v: "v3_stmts [(''use'', \<lparr>syntax_list = Some [''USE NS @ns'']\<rparr>)] =
      [(''use'', \<lparr>k_list = [''USE'', ''NS'']\<rparr>)]"
    by code_simp
  note t = entry_without_syntax_skipped [OF h, of id
      "[(''use'', \<lparr>syntax_list = Some [''USE NS @ns'']\<rparr>)]" "''info''" "[]"]
  have a: "full_stmts id
      [(''use'', \<lparr>syntax_list = Some [''USE NS @ns'']\<rparr>), (''info'', \<lparr>syntax_list = None\<rparr>)] =
      full_stmts id [(''use'', \<lparr>syntax_list = Some [''USE NS @ns'']\<rparr>)]"
    using t by simp
  have b: "v3_stmts
      [(''use'', \<lparr>syntax_list = Some [''USE NS @ns'']\<rparr>), (''info'', \<lparr>syntax_list = None\<rparr>)] =
      v3_stmts [(''use'', \<lparr>syntax_list = Some [''USE NS @ns'']\<rparr>)]"
    using t by simp
  have "''info'' \<notin> fst ` set ([(''use'', \<lparr>syntax_list = Some [''USE NS @ns'']\<rparr>)] @ [])"
    by simp
  with t have "''info'' \<notin> fst ` set (full_stmts id
      ([(''use'', \<lparr>syntax_list = Some [''USE NS @ns'']\<rparr>)] @
       (''info'', \<lparr>syntax_list = None\<rparr>) # []))"
    by blast
  then have c: "''info'' \<notin> fst ` set (full_stmts id
      [(''use'', \<lparr>syntax_list = Some [''USE NS @ns'']\<rparr>), (''info'', \<lparr>syntax_list = None\<rparr>)])"
    unfolding append.simps .
  show ?thesis
    by (intro conjI) (fact h, fact a, simp only: b v, fact c)
qed

section \<open>Choice groups of a grammar line\<close>

lemma split_on_nonempty [simp]: "split_on sep s \<noteq> []"
  by (induction s) (auto split: list.splits)

lemma join_split_on: "join [sep] (split_on sep s) = s"
proof (induction s)
  case Nil
  then show ?case by simp
next
  case (Cons c cs)
  show ?case
  proof (cases "c = sep")
    case True
    then show ?thesis using Cons
      by (cases "split_on sep cs") simp_all
  next
    case False
    then show ?thesis using Cons
      by (cases "split_on sep cs") (auto split: list.splits, (metis join.simps(2,3) append_Cons list.exhaust)+)
  qed
qed

lemma split_on_pieces: "p \<in> set (split_on sep s) \<Longrightarrow> sep \<notin> set p"
  by (induction s arbitrary: p) (auto split: if_splits list.splits)

lemma handle_match_choices_step:
  "pl_optional_choices (handle_match m r) =
     (if CHR ''|'' \<in> set m \<and> choices_of m \<noteq> [] then Some (choices_of m)
      else pl_optional_choices r)"
  by (simp add: handle_match_def)

lemma fold_handle_match_choices:
  "pl_optional_choices (fold handle_match ms r) =
     (case filter (\<lambda>g. g \<noteq> []) (map choices_of (filter (\<lambda>m. CHR ''|'' \<in> set m) ms)) of
        [] \<Rightarrow> pl_optional_choices r
      | g # gs \<Rightarrow> Some (last (g # gs)))"
proof (induction ms arbitrary: r)
  case Nil
  then show ?case by simp
next
  case (Cons m ms)
  have "pl_optional_choices (fold handle_match (m # ms) r) =
      pl_optional_choices (fold handle_match ms (handle_match m r))"
    by simp
  also have "\<dots> =
     (case filter (\<lambda>g. g \<noteq> []) (map choices_of (filter (\<lambda>m. CHR ''|'' \<in> set m) ms)) of
        [] \<Rightarrow> pl_optional_choices (handle_match m r)
      | g # gs \<Rightarrow> Some (last (g # gs)))"
    by (rule Cons.IH)
  also have "\<dots> =
     (case filter (\<lambda>g. g \<noteq> [])
             (map choices_of (filter (\<lambda>m. CHR ''|'' \<in> set m) (m # ms))) of
        [] \<Rightarrow> pl_optional_choices r
      | g # gs \<Rightarrow> Some (last (g # gs)))"
    by (simp add: handle_match_choices_step split: list.splits)
  finally show ?case .
qed

lemma parse_bnf_line_choices:
  "pl_optional_choices (parse_bnf_line line) =
     (case filter (\<lambda>g. g \<noteq> [])
             (map choices_of (filter (\<lambda>m. CHR ''|'' \<in> set m) (findall_optional (strip line)))) of
        [] \<Rightarrow> None
      | g # gs \<Rightarrow> Some (last (g # gs)))"
proof (cases "strip line = []")
  case True
  then show ?thesis by (simp add: parse_bnf_line_def empty_line_def)
next
  case False
  have "pl_optional_choices empty_line = None" by (simp add: empty_line_def)
  with False show ?thesis
    by (simp add: parse_bnf_line_def Let_def fold_handle_match_choices cong: list.case_cong)
qed

lemma handle_match_choices:
  "CHR ''|'' \<in> set m \<Longrightarrow>
     handle_match m r =
       (if choices_of m = [] then r else r\<lparr>pl_optional_choices := Some (choices_of m)\<rparr>)"
  by (simp add: handle_match_def)

lemma choices_of_set:
  "set (choices_of m) =
     {c. c \<noteq> [] \<and> \<not> prefix ''@'' c \<and> c \<in> strip ` set (split_on (CHR ''|'') m)}"
  by (auto simp: choices_of_def)

lemma example_choices: "pl_optional_choices (parse_bnf_line ''[A | B]'') = Some [''A'', ''B'']"
  by code_simp


lemma parse_bnf_line_choices_present:
  "pl_optional_choices (parse_bnf_line line) \<noteq> None \<longleftrightarrow>
     (\<exists>m \<in> set (findall_optional (strip line)). CHR ''|'' \<in> set m \<and> choices_of m \<noteq> [])"
proof -
  let ?gs = "filter (\<lambda>g. g \<noteq> [])
     (map choices_of (filter (\<lambda>m. CHR ''|'' \<in> set m) (findall_optional (strip line))))"
  have "pl_optional_choices (parse_bnf_line line) \<noteq> None \<longleftrightarrow> ?gs \<noteq> []"
    by (simp add: parse_bnf_line_choices split: list.splits)
  also have "\<dots> \<longleftrightarrow>
     (\<exists>m \<in> set (findall_optional (strip line)). CHR ''|'' \<in> set m \<and> choices_of m \<noteq> [])"
    by (auto simp: filter_empty_conv)
  finally show ?thesis .
qed

lemma parse_bnf_line_choices_single:
  assumes "filter (\<lambda>m. CHR ''|'' \<in> set m) (findall_optional (strip line)) = [m]"
  shows "pl_optional_choices (parse_bnf_line line) =
     (if choices_of m = [] then None else Some (choices_of m))"
  by (simp add: parse_bnf_line_choices assms)

text \<open>
  Claim C5, as it is worded: for a bracketed span that holds a bar, the parser records a
  choice group exactly when a choice remains. In the line \<^verbatim>\<open>[A | B] [C | D]\<close> the pattern
  finds the two spans, the span \<^verbatim>\<open>A | B\<close> keeps the choices \<^verbatim>\<open>A\<close> and \<^verbatim>\<open>B\<close>, and yet the
  parsed line holds the group \<^verbatim>\<open>C\<close>, \<^verbatim>\<open>D\<close> alone: the loop writes the one key
  \<^verbatim>\<open>optional_choices\<close>, so the group of a later span replaces the group of an earlier one.
\<close>

theorem earlier_choice_group_replaced:
  "findall_optional (strip ''[A | B] [C | D]'') = [''A | B'', ''C | D''] \<and>
   CHR ''|'' \<in> set ''A | B'' \<and>
   choices_of ''A | B'' = [''A'', ''B''] \<and>
   pl_optional_choices (parse_bnf_line ''[A | B] [C | D]'') = Some [''C'', ''D''] \<and>
   pl_optional_choices (parse_bnf_line ''[A | B] [C | D]'') \<noteq> Some [''A'', ''B'']"
  by code_simp

text \<open>
  Claim C5, amended: for a bracketed span that holds a bar, the parser splits the span at
  the bars (the pieces are the texts between the bars: joined with bars they give the span
  back, and none holds a bar), strips the pieces and drops the empty ones and the ones that
  begin with an at-sign; one turn of its loop sets \<^verbatim>\<open>optional_choices\<close> to the remaining
  choices exactly when there is one, and leaves the result alone otherwise. The parsed line
  holds one choice group at most: the group of the last span with a bar that keeps a
  choice. It holds a group exactly when some span with a bar keeps a choice, and for a line
  with one span with a bar it holds the choices of that span exactly when one remains. For
  the line \<^verbatim>\<open>[A | B]\<close> the recorded choices are \<^verbatim>\<open>A\<close> and \<^verbatim>\<open>B\<close>.
\<close>

theorem choice_groups:
  "(CHR ''|'' \<in> set m \<longrightarrow>
      handle_match m r =
        (if choices_of m = [] then r else r\<lparr>pl_optional_choices := Some (choices_of m)\<rparr>)) \<and>
   choices_of m =
     filter (\<lambda>c. c \<noteq> [] \<and> \<not> prefix ''@'' c) (map strip (split_on (CHR ''|'') m)) \<and>
   join ''|'' (split_on (CHR ''|'') m) = m \<and>
   (\<forall>p \<in> set (split_on (CHR ''|'') m). CHR ''|'' \<notin> set p) \<and>
   pl_optional_choices (parse_bnf_line line) =
     (case filter (\<lambda>g. g \<noteq> [])
             (map choices_of (filter (\<lambda>m. CHR ''|'' \<in> set m) (findall_optional (strip line)))) of
        [] \<Rightarrow> None
      | g # gs \<Rightarrow> Some (last (g # gs))) \<and>
   (pl_optional_choices (parse_bnf_line line) \<noteq> None \<longleftrightarrow>
      (\<exists>m \<in> set (findall_optional (strip line)). CHR ''|'' \<in> set m \<and> choices_of m \<noteq> [])) \<and>
   (filter (\<lambda>m. CHR ''|'' \<in> set m) (findall_optional (strip line)) = [m] \<longrightarrow>
      pl_optional_choices (parse_bnf_line line) =
        (if choices_of m = [] then None else Some (choices_of m))) \<and>
   pl_optional_choices (parse_bnf_line ''[A | B]'') = Some [''A'', ''B'']"
proof -
  have 1: "CHR ''|'' \<in> set m \<longrightarrow>
      handle_match m r =
        (if choices_of m = [] then r else r\<lparr>pl_optional_choices := Some (choices_of m)\<rparr>)"
    using handle_match_choices [of m r] by blast
  have 2: "choices_of m =
     filter (\<lambda>c. c \<noteq> [] \<and> \<not> prefix ''@'' c) (map strip (split_on (CHR ''|'') m))"
    by (simp add: choices_of_def)
  have 3: "join ''|'' (split_on (CHR ''|'') m) = m"
    by (rule join_split_on)
  have 4: "\<forall>p \<in> set (split_on (CHR ''|'') m). CHR ''|'' \<notin> set p"
    using split_on_pieces [of _ "CHR ''|''" m] by blast
  have 7: "filter (\<lambda>m. CHR ''|'' \<in> set m) (findall_optional (strip line)) = [m] \<longrightarrow>
      pl_optional_choices (parse_bnf_line line) =
        (if choices_of m = [] then None else Some (choices_of m))"
    using parse_bnf_line_choices_single [of line m] by blast
  show ?thesis
    by (intro conjI) (rule 1, rule 2, rule 3, rule 4, rule parse_bnf_line_choices,
      rule parse_bnf_line_choices_present, rule 7, rule example_choices)
qed

theorem choice_groups_witness:
  "CHR ''|'' \<in> set ''A | @x | | B'' \<and>
   handle_match ''A | @x | | B'' empty_line =
     empty_line\<lparr>pl_optional_choices := Some [''A'', ''B'']\<rparr> \<and>
   split_on (CHR ''|'') ''A | @x | | B'' = [''A '', '' @x '', '' '', '' B''] \<and>
   pl_optional_choices (parse_bnf_line ''[ @a | @b ] [ X | Y ] [ Z ]'') = Some [''X'', ''Y''] \<and>
   filter (\<lambda>m. CHR ''|'' \<in> set m) (findall_optional (strip ''[ Z ] [ X | @y ]'')) = [''X | @y ''] \<and>
   pl_optional_choices (parse_bnf_line ''[ Z ] [ X | @y ]'') = Some [''X'']"
proof -
  have h: "CHR ''|'' \<in> set ''A | @x | | B''" by simp
  have c: "choices_of ''A | @x | | B'' = [''A'', ''B'']" by code_simp
  have s: "split_on (CHR ''|'') ''A | @x | | B'' = [''A '', '' @x '', '' '', '' B'']" by code_simp
  have f: "(case filter (\<lambda>g. g \<noteq> [])
             (map choices_of (filter (\<lambda>m. CHR ''|'' \<in> set m)
                (findall_optional (strip ''[ @a | @b ] [ X | Y ] [ Z ]'')))) of
        [] \<Rightarrow> None
      | g # gs \<Rightarrow> Some (last (g # gs))) = Some [''X'', ''Y'']"
    by code_simp
  have g: "filter (\<lambda>m. CHR ''|'' \<in> set m) (findall_optional (strip ''[ Z ] [ X | @y ]'')) =
      [''X | @y '']"
    by code_simp
  have c': "choices_of ''X | @y '' = [''X'']" by code_simp
  note t = choice_groups [of "''A | @x | | B''" empty_line "''[ @a | @b ] [ X | Y ] [ Z ]''"]
  note u = choice_groups [of "''X | @y ''" empty_line "''[ Z ] [ X | @y ]''"]
  from t have "CHR ''|'' \<in> set ''A | @x | | B'' \<longrightarrow>
      handle_match ''A | @x | | B'' empty_line =
        (if choices_of ''A | @x | | B'' = [] then empty_line
         else empty_line\<lparr>pl_optional_choices := Some (choices_of ''A | @x | | B'')\<rparr>)"
    by (rule conjunct1)
  with h have 1: "handle_match ''A | @x | | B'' empty_line =
     empty_line\<lparr>pl_optional_choices := Some [''A'', ''B'']\<rparr>"
    by (simp only: c) simp
  from t have "pl_optional_choices (parse_bnf_line ''[ @a | @b ] [ X | Y ] [ Z ]'') =
     (case filter (\<lambda>g. g \<noteq> [])
             (map choices_of (filter (\<lambda>m. CHR ''|'' \<in> set m)
                (findall_optional (strip ''[ @a | @b ] [ X | Y ] [ Z ]'')))) of
        [] \<Rightarrow> None
      | g # gs \<Rightarrow> Some (last (g # gs)))"
    by blast
  then have 2: "pl_optional_choices (parse_bnf_line ''[ @a | @b ] [ X | Y ] [ Z ]'') =
      Some [''X'', ''Y'']"
    by (simp only: f)
  from u have "filter (\<lambda>m. CHR ''|'' \<in> set m) (findall_optional (strip ''[ Z ] [ X | @y ]'')) =
      [''X | @y ''] \<longrightarrow>
      pl_optional_choices (parse_bnf_line ''[ Z ] [ X | @y ]'') =
        (if choices_of ''X | @y '' = [] then None else Some (choices_of ''X | @y ''))"
    by blast
  with g have 3: "pl_optional_choices (parse_bnf_line ''[ Z ] [ X | @y ]'') = Some [''X'']"
    by (simp only: c') simp
  show ?thesis
    by (intro conjI) (fact h, fact 1, fact s, fact 2, fact g, fact 3)
qed

section \<open>Statements with two syntax blocks\<close>

lemma opt_list_present [simp]: "opt_list (present xs) = xs"
  by (simp add: opt_list_def present_def)

lemma set_sorted_set [simp]: "set (sorted_set xs) = set xs"
  by (simp add: sorted_set_def)

lemma keyword_set_opt_list: "keyword_set r = set (opt_list (pl_keywords r))"
  by (simp add: keyword_set_def opt_list_def split: option.splits)

lemma parsed_lines_union:
  assumes "f empty_line = {}"
  shows "(\<Union>r \<in> set (parsed_lines b). f r) =
         (\<Union>line \<in> set (split_on newline b). f (parse_bnf_line line))"
  using assms by (auto simp: parsed_lines_def nonempty_line_def)

lemma convert_keywords:
  "set (opt_list (ss_keywords (convert_statement_syntax b))) = block_keywords b"
proof -
  have "set (opt_list (ss_keywords (convert_statement_syntax b))) =
      (\<Union>r \<in> set (parsed_lines b). keyword_set r)"
    by (simp add: convert_statement_syntax_def Let_def keyword_set_opt_list)
  also have "\<dots> = block_keywords b"
    unfolding block_keywords_def
    by (rule parsed_lines_union) (simp add: keyword_set_def empty_line_def)
  finally show ?thesis .
qed

lemma convert_variables:
  "set (opt_list (ss_variables (convert_statement_syntax b))) = block_variables b"
proof -
  have "set (opt_list (ss_variables (convert_statement_syntax b))) =
      (\<Union>r \<in> set (parsed_lines b). set (opt_list (pl_variables r)))"
    by (simp add: convert_statement_syntax_def Let_def)
  also have "\<dots> = block_variables b"
    unfolding block_variables_def
    by (rule parsed_lines_union) (simp add: opt_list_def empty_line_def)
  finally show ?thesis .
qed

lemma convert_syntax [simp]: "ss_syntax (convert_statement_syntax b) = b"
  by (simp add: convert_statement_syntax_def Let_def)

text \<open>
  Claim C7: a statement entry with two syntax blocks is stored with exactly two variant
  records, the structures of the first and of the second block in this order. The keywords
  and the variables of a variant are those that the lines of its own block yield, nothing
  of the other block; the metadata dictionary stands once, beside the list of variants.
\<close>

theorem two_blocks_two_variants:
  "length (syntax_blocks d) = 2 \<longrightarrow>
     variants (process_statement d) = map convert_statement_syntax (syntax_blocks d) \<and>
     length (variants (process_statement d)) = 2 \<and>
     (\<forall>i<2.
        ss_syntax (variants (process_statement d) ! i) = syntax_blocks d ! i \<and>
        set (opt_list (ss_keywords (variants (process_statement d) ! i))) =
          block_keywords (syntax_blocks d ! i) \<and>
        set (opt_list (ss_variables (variants (process_statement d) ! i))) =
          block_variables (syntax_blocks d ! i)) \<and>
     metadata_of (process_statement d) = [entry_metadata d]"
  by (simp add: process_statement_def convert_keywords convert_variables)


theorem two_blocks_two_variants_witness:
  "length (syntax_blocks \<lparr>syntax_blocks = [''DEFINE TABLE @name'', ''REMOVE TABLE [ IF EXISTS ] @name''],
      title = Some ''TABLE'', description = None, sidebar_label = None\<rparr>) = 2 \<and>
   variants (process_statement \<lparr>syntax_blocks = [''DEFINE TABLE @name'', ''REMOVE TABLE [ IF EXISTS ] @name''],
      title = Some ''TABLE'', description = None, sidebar_label = None\<rparr>) =
     [\<lparr>ss_syntax = ''DEFINE TABLE @name'', ss_variables = Some [''name''],
        ss_keywords = Some [''DEFINE'', ''TABLE''], ss_optional = None\<rparr>,
      \<lparr>ss_syntax = ''REMOVE TABLE [ IF EXISTS ] @name'', ss_variables = Some [''name''],
        ss_keywords = Some [''REMOVE'', ''TABLE''], ss_optional = Some [[''IF EXISTS'']]\<rparr>] \<and>
   metadata_of (process_statement \<lparr>syntax_blocks = [''DEFINE TABLE @name'', ''REMOVE TABLE [ IF EXISTS ] @name''],
      title = Some ''TABLE'', description = None, sidebar_label = None\<rparr>) =
     [\<lparr>md_title = ''TABLE'', md_description = [], md_sidebar_label = []\<rparr>]"
proof -
  have h: "length (syntax_blocks \<lparr>syntax_blocks = [''DEFINE TABLE @name'', ''REMOVE TABLE [ IF EXISTS ] @name''],
      title = Some ''TABLE'', description = None, sidebar_label = None\<rparr>) = 2"
    by simp
  have v: "map convert_statement_syntax [''DEFINE TABLE @name'', ''REMOVE TABLE [ IF EXISTS ] @name''] =
     [\<lparr>ss_syntax = ''DEFINE TABLE @name'', ss_variables = Some [''name''],
        ss_keywords = Some [''DEFINE'', ''TABLE''], ss_optional = None\<rparr>,
      \<lparr>ss_syntax = ''REMOVE TABLE [ IF EXISTS ] @name'', ss_variables = Some [''name''],
        ss_keywords = Some [''REMOVE'', ''TABLE''], ss_optional = Some [[''IF EXISTS'']]\<rparr>]"
    by code_simp
  have m: "entry_metadata \<lparr>syntax_blocks = [''DEFINE TABLE @name'', ''REMOVE TABLE [ IF EXISTS ] @name''],
      title = Some ''TABLE'', description = None, sidebar_label = None\<rparr> =
      \<lparr>md_title = ''TABLE'', md_description = [], md_sidebar_label = []\<rparr>"
    by (simp add: entry_metadata_def get_or_empty_def)
  note t = two_blocks_two_variants [of "\<lparr>syntax_blocks = [''DEFINE TABLE @name'', ''REMOVE TABLE [ IF EXISTS ] @name''],
      title = Some ''TABLE'', description = None, sidebar_label = None\<rparr>", rule_format, OF h]
  from t have 1: "variants (process_statement \<lparr>syntax_blocks = [''DEFINE TABLE @name'', ''REMOVE TABLE [ IF EXISTS ] @name''],
      title = Some ''TABLE'', description = None, sidebar_label = None\<rparr>) =
     map convert_statement_syntax (syntax_blocks \<lparr>syntax_blocks = [''DEFINE TABLE @name'', ''REMOVE TABLE [ IF EXISTS ] @name''],
      title = Some ''TABLE'', description = None, sidebar_label = None\<rparr>)"
    by (rule conjunct1)
  from t have 2: "metadata_of (process_statement \<lparr>syntax_blocks = [''DEFINE TABLE @name'', ''REMOVE TABLE [ IF EXISTS ] @name''],
      title = Some ''TABLE'', description = None, sidebar_label = None\<rparr>) =
     [entry_metadata \<lparr>syntax_blocks = [''DEFINE TABLE @name'', ''REMOVE TABLE [ IF EXISTS ] @name''],
      title = Some ''TABLE'', description = None, sidebar_label = None\<rparr>]"
    by blast
  show ?thesis
    using h 1 2 v m by simp
qed

section \<open>The keyword set of a grammar line\<close>

lemma first_simps [simp]: "first [] = None" "first (c # cs) = Some c"
  by (simp_all add: first_def)

lemma word_opt_simps [simp]: "word_opt None = False" "word_opt (Some c) = is_word c"
  by (simp_all add: word_opt_def)

lemma first_drop_in: "j < length run \<Longrightarrow> first (drop j (run @ rest)) = Some (run ! j)"
  by (simp add: Cons_nth_drop_Suc [symmetric])

lemma give_back_inside:
  assumes "\<forall>c \<in> set run. is_word c" "j < length run"
  shows "give_back (run @ rest) mn j = None"
  using assms(2)
proof (induction j)
  case 0
  then show ?case by simp
next
  case (Suc j)
  then have "is_word (run ! j)" "is_word (run ! Suc j)"
    using assms(1) by simp_all
  with Suc show ?case
    by (simp add: first_drop_in boundary_def del: drop_append)
qed

lemma give_back_run:
  assumes "\<forall>c \<in> set run. is_word c"
  shows "give_back (run @ rest) mn (length run) =
     (if run \<noteq> [] \<and> mn \<le> length run \<and> \<not> word_opt (first rest) then Some (length run)
      else None)"
proof (cases "length run")
  case 0
  then show ?thesis by simp
next
  case (Suc j)
  then have j: "j < length run" by simp
  then have w: "is_word (run ! j)" using assms by simp
  have d: "drop (Suc j) (run @ rest) = rest" using Suc by simp
  have "give_back (run @ rest) mn (Suc j) =
     (if Suc j < mn then None
      else if \<not> word_opt (first rest) then Some (Suc j) else None)"
    using give_back_inside [OF assms j, of rest mn] w
    by (simp add: first_drop_in [OF j] d boundary_def del: drop_append)
  then show ?thesis using Suc by auto
qed

lemma match_word_run_iff:
  assumes "\<And>c. P c \<Longrightarrow> is_word c"
  shows "match_word_run P mn prev s =
     (if takeWhile P s \<noteq> [] \<and> mn \<le> length (takeWhile P s) \<and> \<not> word_opt prev \<and>
         \<not> word_opt (first (dropWhile P s))
      then Some (length (takeWhile P s)) else None)"
proof -
  let ?run = "takeWhile P s" and ?rest = "dropWhile P s"
  have all: "\<forall>c \<in> set ?run. is_word c"
    using assms by (auto dest: set_takeWhileD)
  have g: "give_back s mn (length ?run) =
     (if ?run \<noteq> [] \<and> mn \<le> length ?run \<and> \<not> word_opt (first ?rest) then Some (length ?run)
      else None)"
    using give_back_run [OF all, of ?rest mn] by simp
  show ?thesis
  proof (cases "?run = []")
    case True
    then show ?thesis by (simp add: match_word_run_def)
  next
    case False
    then obtain c cs where s: "s = c # cs" and "P c"
      by (cases s) (auto split: if_splits)
    then have "word_opt (first s)" using assms by simp
    then have "boundary prev (first s) \<longleftrightarrow> \<not> word_opt prev"
      by (auto simp: boundary_def)
    then show ?thesis using g by (simp add: match_word_run_def)
  qed
qed

lemma starts_here_run:
  assumes "\<And>c. P c \<Longrightarrow> is_word c" "s = w @ post" "\<forall>c \<in> set w. P c" "\<not> word_opt (first post)"
  shows "takeWhile P s = w \<and> dropWhile P s = post"
proof -
  have "takeWhile P post = []"
    using assms(1,4) by (cases post) auto
  moreover have "dropWhile P post = post"
    using assms(1,4) by (cases post) auto
  ultimately show ?thesis
    using assms(2,3) by (simp add: takeWhile_append2 dropWhile_append2)
qed

lemma starts_here_iff:
  assumes "\<And>c. P c \<Longrightarrow> is_word c"
  shows "starts_here P mn prev s w \<longleftrightarrow> (\<exists>n. match_word_run P mn prev s = Some n \<and> w = take n s)"
proof
  assume "starts_here P mn prev s w"
  then obtain post where p: "s = w @ post" "w \<noteq> []" "mn \<le> length w" "\<forall>c \<in> set w. P c"
      "\<not> word_opt prev" "\<not> word_opt (first post)"
    unfolding starts_here_def by blast
  from starts_here_run [OF assms p(1,4,6)] have r: "takeWhile P s = w" "dropWhile P s = post"
    by simp_all
  have "match_word_run P mn prev s =
     (if takeWhile P s \<noteq> [] \<and> mn \<le> length (takeWhile P s) \<and> \<not> word_opt prev \<and>
         \<not> word_opt (first (dropWhile P s))
      then Some (length (takeWhile P s)) else None)"
    by (rule match_word_run_iff [OF assms])
  also have "\<dots> = Some (length w)"
    unfolding r using p(2,3,5,6) by simp
  finally have "match_word_run P mn prev s = Some (length w)" .
  moreover have "w = take (length w) s" using p(1) by simp
  ultimately show "\<exists>n. match_word_run P mn prev s = Some n \<and> w = take n s" by blast
next
  assume "\<exists>n. match_word_run P mn prev s = Some n \<and> w = take n s"
  then obtain n where n: "match_word_run P mn prev s = Some n" "w = take n s" by blast
  from n(1) have c: "takeWhile P s \<noteq> []" "mn \<le> length (takeWhile P s)" "\<not> word_opt prev"
      "\<not> word_opt (first (dropWhile P s))" "n = length (takeWhile P s)"
    by (auto simp: match_word_run_iff [OF assms] split: if_splits)
  have w: "w = takeWhile P s" using n(2) c(5) takeWhile_eq_take [of P s] by simp
  have "s = w @ dropWhile P s" using w by simp
  moreover have "\<forall>c \<in> set w. P c" using w by (auto dest: set_takeWhileD)
  ultimately show "starts_here P mn prev s w"
    unfolding starts_here_def using c w by blast
qed

lemma whole_word_Nil [simp]: "\<not> whole_word P mn prev [] w"
  by (simp add: whole_word_def)

lemma whole_word_Cons:
  "whole_word P mn prev (c # cs) w \<longleftrightarrow>
     starts_here P mn prev (c # cs) w \<or> whole_word P mn (Some c) cs w"
proof
  assume "whole_word P mn prev (c # cs) w"
  then obtain pre post where p: "c # cs = pre @ w @ post" "w \<noteq> []" "mn \<le> length w"
      "\<forall>c \<in> set w. P c" "\<not> word_opt (before pre prev)" "\<not> word_opt (first post)"
    unfolding whole_word_def by blast
  show "starts_here P mn prev (c # cs) w \<or> whole_word P mn (Some c) cs w"
  proof (cases pre)
    case Nil
    with p have "starts_here P mn prev (c # cs) w"
      unfolding starts_here_def by (auto simp: before_def)
    then show ?thesis ..
  next
    case (Cons x pre')
    with p(1) have cs: "x = c" "cs = pre' @ w @ post" by simp_all
    have "before pre' (Some c) = before pre prev"
      using Cons cs(1) by (simp add: before_def)
    with p cs have "whole_word P mn (Some c) cs w"
      unfolding whole_word_def by metis
    then show ?thesis ..
  qed
next
  assume "starts_here P mn prev (c # cs) w \<or> whole_word P mn (Some c) cs w"
  then show "whole_word P mn prev (c # cs) w"
  proof
    assume "starts_here P mn prev (c # cs) w"
    then obtain post where "c # cs = [] @ w @ post" "w \<noteq> []" "mn \<le> length w"
      "\<forall>c \<in> set w. P c" "\<not> word_opt (before [] prev)" "\<not> word_opt (first post)"
      unfolding starts_here_def by (auto simp: before_def)
    then show ?thesis unfolding whole_word_def by blast
  next
    assume "whole_word P mn (Some c) cs w"
    then obtain pre post where p: "cs = pre @ w @ post" "w \<noteq> []" "mn \<le> length w"
      "\<forall>c \<in> set w. P c" "\<not> word_opt (before pre (Some c))" "\<not> word_opt (first post)"
      unfolding whole_word_def by blast
    have "before (c # pre) prev = before pre (Some c)"
      by (simp add: before_def)
    moreover have "c # cs = (c # pre) @ w @ post" using p(1) by simp
    ultimately show ?thesis
      unfolding whole_word_def using p by metis
  qed
qed

lemma starts_here_after_word: "is_word x \<Longrightarrow> \<not> starts_here P mn (Some x) s w"
  by (simp add: starts_here_def)

lemma whole_word_skip:
  assumes "\<forall>c \<in> set xs. is_word c" "is_word x"
  shows "whole_word P mn (Some x) (xs @ r) w \<longleftrightarrow> whole_word P mn (Some (last (x # xs))) r w"
  using assms
proof (induction xs arbitrary: x)
  case Nil
  then show ?case by simp
next
  case (Cons y ys)
  have "whole_word P mn (Some x) ((y # ys) @ r) w \<longleftrightarrow> whole_word P mn (Some y) (ys @ r) w"
    using Cons.prems(2) by (simp add: whole_word_Cons starts_here_after_word)
  also have "\<dots> \<longleftrightarrow> whole_word P mn (Some (last (y # ys))) r w"
    using Cons.prems(1) by (intro Cons.IH) simp_all
  finally show ?case by simp
qed

lemma findall_word_run_iff:
  assumes "\<And>c. P c \<Longrightarrow> is_word c"
  shows "w \<in> set (findall_word_run P mn prev s) \<longleftrightarrow> whole_word P mn prev s w"
  using assms
proof (induction P mn prev s rule: findall_word_run.induct)
  case (1 P mn prev)
  then show ?case by simp
next
  case (2 P mn prev c cs)
  note P = "2.prems"
  show ?case
  proof (cases "match_word_run P mn prev (c # cs)")
    case None
    then have "\<not> starts_here P mn prev (c # cs) w"
      by (simp add: starts_here_iff [OF P])
    moreover have "w \<in> set (findall_word_run P mn (Some c) cs) \<longleftrightarrow> whole_word P mn (Some c) cs w"
      using "2.IH"(1) [OF None P] .
    ultimately show ?thesis
      using None by (simp add: findall_word_run.simps(2) whole_word_Cons)
  next
    case (Some n)
    let ?s = "c # cs"
    from Some have n: "n = length (takeWhile P ?s)" "takeWhile P ?s \<noteq> []"
      by (auto simp: match_word_run_iff [OF P] split: if_splits)
    then have Pc: "P c" by (auto split: if_splits)
    have run: "takeWhile P ?s = c # takeWhile P cs" using Pc by simp
    let ?xs = "takeWhile P cs"
    have n': "n = Suc (length ?xs)" using n(1) run by simp
    have xs: "\<forall>c \<in> set ?xs. is_word c" using P by (auto dest: set_takeWhileD)
    have dr: "drop n ?s = dropWhile P cs"
      using n' by (simp add: dropWhile_eq_drop)
    have "first (drop (n - 1) ?s) = Some (last (c # ?xs))"
    proof -
      have "?s = (c # ?xs) @ dropWhile P cs" by simp
      moreover have "n - 1 < length (c # ?xs)" using n' by simp
      ultimately have "first (drop (n - 1) ?s) = Some ((c # ?xs) ! (n - 1))"
        using first_drop_in [of "n - 1" "c # ?xs" "dropWhile P cs"] by simp
      also have "(c # ?xs) ! (n - 1) = last (c # ?xs)"
        using n' by (simp add: last_conv_nth)
      finally show ?thesis .
    qed
    then have ih: "w \<in> set (findall_word_run P mn (first (drop (n - 1) ?s)) (drop n ?s)) \<longleftrightarrow>
        whole_word P mn (Some (last (c # ?xs))) (dropWhile P cs) w"
      using "2.IH"(2) [OF Some P] dr by simp
    have sk: "whole_word P mn (Some c) cs w \<longleftrightarrow>
        whole_word P mn (Some (last (c # ?xs))) (dropWhile P cs) w"
      using whole_word_skip [OF xs, of c P mn "dropWhile P cs" w] P [OF Pc] by simp
    have st: "starts_here P mn prev ?s w \<longleftrightarrow> w = take n ?s"
      using Some by (auto simp: starts_here_iff [OF P])
    show ?thesis
      using Some ih sk st by (simp add: findall_word_run.simps(2) whole_word_Cons del: take_Suc_Cons drop_Suc_Cons)
  qed
qed

lemma AZ_is_word: "is_AZ c \<Longrightarrow> is_word c"
  by (simp add: is_AZ_def is_word_def Let_def)

lemma findall_caps_iff: "w \<in> set (findall_caps s) \<longleftrightarrow> whole_word is_AZ 2 None s w"
  unfolding findall_caps_def by (rule findall_word_run_iff) (rule AZ_is_word)

lemma in_some_optional_iff:
  "in_some_optional opts w \<longleftrightarrow> (\<exists>opt \<in> set opts. sublist w opt)"
  by (simp add: in_some_optional_def list_ex_iff)

lemma keyword_set_parse:
  "keyword_set (parse_bnf_line line) = set (filtered_keywords (strip line))"
proof (cases "strip line = []")
  case True
  then show ?thesis
    by (simp add: parse_bnf_line_def keyword_set_def empty_line_def filtered_keywords_def
        findall_caps_def)
next
  case False
  then show ?thesis
    by (simp add: parse_bnf_line_def Let_def keyword_set_def present_def)
qed

text \<open>
  Claim C4, as it is worded: the keyword set holds exactly the runs of capitals of length two
  or more that occur in no bracketed span. In the line \<^verbatim>\<open>ABc\<close> the run \<^verbatim>\<open>AB\<close> is such a run
  and the line has no bracketed span, but the pattern \<^verbatim>\<open>\b[A-Z]{2,}\b\<close> wants a word boundary
  behind the run, so \<^verbatim>\<open>AB\<close> is no keyword of the line.
\<close>

theorem capital_run_not_keyword:
  "''AB'' \<in> set (capital_runs (strip ''ABc'')) \<and>
   findall_optional (strip ''ABc'') = [] \<and>
   ''AB'' \<notin> keyword_set (parse_bnf_line ''ABc'')"
  by code_simp

text \<open>
  Claim C4, amended: for every grammar line, a text is in the keyword set exactly when it is
  a whole word of capitals of the stripped line (a run of two or more capitals with no word
  character, that is no letter, digit or underscore, directly before or after it) and is a
  substring of none of the groups that the pattern for bracketed spans finds in this line.
\<close>

theorem keyword_set_characterised:
  "w \<in> keyword_set (parse_bnf_line line) \<longleftrightarrow>
     whole_word is_AZ 2 None (strip line) w \<and>
     \<not> (\<exists>opt \<in> set (findall_optional (strip line)). sublist w opt)"
  by (auto simp: keyword_set_parse filtered_keywords_def findall_caps_iff in_some_optional_iff)

theorem keyword_set_characterised_witness:
  "''TABLE'' \<in> keyword_set (parse_bnf_line ''DEFINE TABLE [ IF EXISTS ] IF x_AB'') \<and>
   ''IF'' \<notin> keyword_set (parse_bnf_line ''DEFINE TABLE [ IF EXISTS ] IF x_AB'')"
proof -
  let ?line = "''DEFINE TABLE [ IF EXISTS ] IF x_AB''"
  have st: "strip ?line = ?line" by code_simp
  have spans: "findall_optional ?line = [''IF EXISTS '']" by code_simp
  have "?line = ''DEFINE '' @ ''TABLE'' @ '' [ IF EXISTS ] IF x_AB''" by simp
  moreover have "''TABLE'' \<noteq> []" "2 \<le> length ''TABLE''" by simp_all
  moreover have "\<forall>c \<in> set ''TABLE''. is_AZ c" by code_simp
  moreover have "\<not> word_opt (before ''DEFINE '' None)" by code_simp
  moreover have "\<not> word_opt (first '' [ IF EXISTS ] IF x_AB'')" by code_simp
  ultimately have ww: "whole_word is_AZ 2 None ?line ''TABLE''"
    unfolding whole_word_def by blast
  have no: "\<not> sublist ''TABLE'' ''IF EXISTS ''" by code_simp
  have yes: "sublist ''IF'' ''IF EXISTS ''" by code_simp
  have 1: "''TABLE'' \<in> keyword_set (parse_bnf_line ?line)"
    using keyword_set_characterised [of "''TABLE''" ?line] ww no
    by (simp only: st spans) simp
  have 2: "''IF'' \<notin> keyword_set (parse_bnf_line ?line)"
    using keyword_set_characterised [of "''IF''" ?line] yes
    by (simp only: st spans) simp
  from 1 2 show ?thesis ..
qed

end
